(* ===== verification/Prelude.thy ===== *)
theory Prelude
  imports Main "HOL-Library.Word" "HOL-Library.Signed_Division"
begin

text \<open>
  Shared groundwork of the development: the signed 64-bit machine integer \<open>std::int64_t\<close>,
  the result type of operations that may throw, the theorem collections, and the generic
  facts on lists and sums that several components use.
\<close>

section \<open>Theorem collections\<close>

named_theorems i64_simps \<open>evaluation and comparison of 64-bit integers\<close>
named_theorems byte_simps \<open>lengths and decoding of byte layouts\<close>

section \<open>Results of operations that may throw\<close>

text \<open>
  A C++ exception that leaves an operation is a value: \<open>Inl e\<close> is the operation that threw
  \<open>e\<close>, \<open>Inr v\<close> the one that returned \<open>v\<close>.
\<close>

datatype exn = LengthError | OutOfRange | RuntimeError string

type_synonym 'a res = "exn + 'a"

definition bind_res :: "'e + 'a \<Rightarrow> ('a \<Rightarrow> 'e + 'b) \<Rightarrow> 'e + 'b" where
  "bind_res m f = (case m of Inl e \<Rightarrow> Inl e | Inr v \<Rightarrow> f v)"

lemma bind_res_simps [simp]: "bind_res (Inl e) f = Inl e" "bind_res (Inr v) f = f v"
  by (simp_all add: bind_res_def)

lemma bind_res_eq_Inr: "bind_res m f = Inr w \<longleftrightarrow> (\<exists>v. m = Inr v \<and> f v = Inr w)"
  by (cases m) auto

section \<open>The machine integer \<open>std::int64_t\<close>\<close>

text \<open>
  A value is its 64 bits, read in two's complement by \<open>ival\<close>. Comparison is signed.
  Addition, subtraction and negation are those of the 64 bits, so they agree with the
  mathematical result exactly when that result is in range; signed overflow, which C++ leaves
  undefined, is the two's complement value here, and the lemmas that need it state the range.
\<close>

datatype int64 = I64 (bits: "64 word")

definition ival :: "int64 \<Rightarrow> int" where
  "ival x = sint (bits x)"

definition i64 :: "int \<Rightarrow> int64" where
  "i64 k = I64 (word_of_int k)"

definition in_i64 :: "int \<Rightarrow> bool" where
  "in_i64 k \<longleftrightarrow> - (2 ^ 63) \<le> k \<and> k < 2 ^ 63"

definition wrap64 :: "int \<Rightarrow> int" where
  "wrap64 k = signed_take_bit 63 k"

lemma ival_range: "- (2 ^ 63) \<le> ival x \<and> ival x < 2 ^ 63"
  using sint_ge [of "bits x"] sint_lt [of "bits x"] by (simp add: ival_def)

lemma in_i64_ival [simp]: "in_i64 (ival x)"
  using ival_range [of x] by (simp add: in_i64_def)

lemma ival_i64: "ival (i64 k) = wrap64 k"
  by (simp add: ival_def i64_def wrap64_def sint_sbintrunc')

lemma i64_ival [simp]: "i64 (ival x) = x"
  by (cases x) (simp add: ival_def i64_def)

lemma ival_inject [simp]: "ival x = ival y \<longleftrightarrow> x = y"
  by (metis i64_ival)

lemma wrap64_id [simp]: "in_i64 k \<Longrightarrow> wrap64 k = k"
  by (simp add: wrap64_def in_i64_def signed_take_bit_int_eq_self)

lemma ival_i64_id [simp]: "in_i64 k \<Longrightarrow> ival (i64 k) = k"
  by (simp add: ival_i64)

instantiation int64 :: linorder
begin

definition less_eq_int64 :: "int64 \<Rightarrow> int64 \<Rightarrow> bool" where
  "less_eq_int64 x y \<longleftrightarrow> ival x \<le> ival y"

definition less_int64 :: "int64 \<Rightarrow> int64 \<Rightarrow> bool" where
  "less_int64 x y \<longleftrightarrow> ival x < ival y"

instance
  by standard (auto simp: less_eq_int64_def less_int64_def)

end

instantiation int64 :: ab_group_add
begin

definition zero_int64 :: int64 where
  "zero_int64 = I64 0"

definition plus_int64 :: "int64 \<Rightarrow> int64 \<Rightarrow> int64" where
  "plus_int64 x y = I64 (bits x + bits y)"

definition minus_int64 :: "int64 \<Rightarrow> int64 \<Rightarrow> int64" where
  "minus_int64 x y = I64 (bits x - bits y)"

definition uminus_int64 :: "int64 \<Rightarrow> int64" where
  "uminus_int64 x = I64 (- bits x)"

instance
  by standard (simp_all add: zero_int64_def plus_int64_def minus_int64_def uminus_int64_def)

end

lemma ival_0 [simp]: "ival 0 = 0"
  by (simp add: ival_def zero_int64_def)

lemma i64_0 [simp]: "i64 0 = 0"
  by (simp add: i64_def zero_int64_def)

lemma i64_add: "i64 a + i64 b = i64 (a + b)"
  by (simp add: i64_def plus_int64_def)

lemma i64_diff: "i64 a - i64 b = i64 (a - b)"
  by (simp add: i64_def minus_int64_def)

lemma i64_minus: "- i64 a = i64 (- a)"
  by (simp add: i64_def uminus_int64_def)

lemma ival_add: "ival (x + y) = wrap64 (ival x + ival y)"
  by (metis i64_add i64_ival ival_i64)

lemma ival_diff: "ival (x - y) = wrap64 (ival x - ival y)"
  by (metis i64_diff i64_ival ival_i64)

lemma ival_minus: "ival (- x) = wrap64 (- ival x)"
  by (metis i64_minus i64_ival ival_i64)

lemma ival_eq_0_iff [simp]: "ival x = 0 \<longleftrightarrow> x = 0"
  using ival_inject [of x 0] by simp

lemma uint_bits: "uint (bits x) = (if 0 \<le> ival x then ival x else ival x + 2 ^ 64)"
proof -
  have "uint (bits x) = ival x mod 2 ^ 64"
    by (simp add: ival_def uint_sint [of "bits x"] take_bit_eq_mod)
  then show ?thesis
    using ival_range [of x] mod_pos_pos_trivial [of "ival x + 2 ^ 64" "2 ^ 64"] by simp
qed

lemma i64_le [i64_simps]: "i64 a \<le> i64 b \<longleftrightarrow> wrap64 a \<le> wrap64 b"
  by (simp add: less_eq_int64_def ival_i64)

lemma i64_less [i64_simps]: "i64 a < i64 b \<longleftrightarrow> wrap64 a < wrap64 b"
  by (simp add: less_int64_def ival_i64)

lemma i64_eq [i64_simps]: "i64 a = i64 b \<longleftrightarrow> wrap64 a = wrap64 b"
  by (metis ival_i64 ival_inject)

lemma i64_le_0 [i64_simps]: "i64 a \<le> 0 \<longleftrightarrow> wrap64 a \<le> 0" "0 \<le> i64 a \<longleftrightarrow> 0 \<le> wrap64 a"
  by (simp_all add: less_eq_int64_def ival_i64)

lemma i64_less_0 [i64_simps]: "i64 a < 0 \<longleftrightarrow> wrap64 a < 0" "0 < i64 a \<longleftrightarrow> 0 < wrap64 a"
  by (simp_all add: less_int64_def ival_i64)

lemma i64_eq_0 [i64_simps]: "i64 a = 0 \<longleftrightarrow> wrap64 a = 0" "0 = i64 a \<longleftrightarrow> wrap64 a = 0"
  using ival_i64 [of a] ival_eq_0_iff [of "i64 a"] by auto

text \<open>The arithmetic the engine and the accounts rely on when the result is in range.\<close>

lemma ival_add_id [simp]: "in_i64 (ival x + ival y) \<Longrightarrow> ival (x + y) = ival x + ival y"
  by (simp add: ival_add)

lemma ival_diff_id [simp]: "in_i64 (ival x - ival y) \<Longrightarrow> ival (x - y) = ival x - ival y"
  by (simp add: ival_diff)

lemma ival_minus_id [simp]: "in_i64 (- ival x) \<Longrightarrow> ival (- x) = - ival x"
  by (simp add: ival_minus)

lemma ival_diff_nonneg: "0 \<le> y \<Longrightarrow> y \<le> x \<Longrightarrow> ival (x - y) = ival x - ival y"
  using ival_range [of x] by (intro ival_diff_id) (simp add: in_i64_def less_eq_int64_def)

lemma ival_min: "ival (min x y) = min (ival x) (ival y)"
  by (simp add: min_def less_eq_int64_def)

lemma ival_less_0 [simp]: "ival x < 0 \<longleftrightarrow> x < 0" "0 < ival x \<longleftrightarrow> 0 < x"
  by (simp_all add: less_int64_def)

lemma ival_le_0 [simp]: "ival x \<le> 0 \<longleftrightarrow> x \<le> 0" "0 \<le> ival x \<longleftrightarrow> 0 \<le> x"
  by (simp_all add: less_eq_int64_def)

text \<open>C++ integer division truncates towards zero.\<close>

definition i64_div :: "int64 \<Rightarrow> int64 \<Rightarrow> int64" where
  "i64_div x y = i64 (ival x sdiv ival y)"

end
