(* ===== verification/Core_Types.thy ===== *)
theory Core_Types
  imports Prelude
begin

text \<open>
  The basic data model of \<open>common/core/\<close>: the \<open>StrongType\<close> wrapper with its operators, the
  scalar types built on it, tickers and the list of instruments, orders, trades and the two
  inbound requests; and the equity instrument of \<open>common/engine/instruments.hpp\<close>.
\<close>

section \<open>\<open>StrongType\<close>\<close>

text \<open>
  The wrapper carries a raw value and a phantom tag. The defaulted comparison operators are
  those of the raw value, which the class instances below say; the arithmetic operators act on
  the raw values and stay within one tag.
\<close>

datatype ('t, dead 'tag) StrongType = StrongType (raw: 't)

instantiation StrongType :: (linorder, type) linorder
begin

definition less_eq_StrongType :: "('a, 'b) StrongType \<Rightarrow> ('a, 'b) StrongType \<Rightarrow> bool" where
  "less_eq_StrongType x y \<longleftrightarrow> raw x \<le> raw y"

definition less_StrongType :: "('a, 'b) StrongType \<Rightarrow> ('a, 'b) StrongType \<Rightarrow> bool" where
  "less_StrongType x y \<longleftrightarrow> raw x < raw y"

instance
  by standard (auto simp: less_eq_StrongType_def less_StrongType_def StrongType.expand)

end

instantiation StrongType :: (ab_group_add, type) ab_group_add
begin

definition zero_StrongType :: "('a, 'b) StrongType" where
  "zero_StrongType = StrongType 0"

definition plus_StrongType :: "('a, 'b) StrongType \<Rightarrow> ('a, 'b) StrongType \<Rightarrow> ('a, 'b) StrongType" where
  "plus_StrongType x y = StrongType (raw x + raw y)"

definition minus_StrongType :: "('a, 'b) StrongType \<Rightarrow> ('a, 'b) StrongType \<Rightarrow> ('a, 'b) StrongType" where
  "minus_StrongType x y = StrongType (raw x - raw y)"

definition uminus_StrongType :: "('a, 'b) StrongType \<Rightarrow> ('a, 'b) StrongType" where
  "uminus_StrongType x = StrongType (- raw x)"

instance
  by standard
    (simp_all add: zero_StrongType_def plus_StrongType_def minus_StrongType_def
      uminus_StrongType_def add.assoc StrongType.expand add.commute)

end

lemma StrongType_order [simp, i64_simps]:
  "StrongType a \<le> StrongType b \<longleftrightarrow> a \<le> b"
  "StrongType a < StrongType b \<longleftrightarrow> a < b"
  by (simp_all add: less_eq_StrongType_def less_StrongType_def)

lemma StrongType_arith [simp, i64_simps]:
  "StrongType a + StrongType b = StrongType (a + b)"
  "StrongType a - StrongType b = StrongType (a - b)"
  "- StrongType a = StrongType (- a)"
  by (simp_all add: plus_StrongType_def minus_StrongType_def uminus_StrongType_def)

lemma raw_arith [simp]:
  "raw (x + y) = raw x + raw y" "raw (x - y) = raw x - raw y" "raw (- x) = - raw x" "raw 0 = 0"
  by (simp_all add: plus_StrongType_def minus_StrongType_def uminus_StrongType_def zero_StrongType_def)

lemma raw_min: "raw (min x y) = min (raw x) (raw y)"
  by (simp add: min_def less_eq_StrongType_def)

section \<open>Scalar types\<close>

datatype PriceTag = PriceTag
datatype VolumeTag = VolumeTag
datatype UserIdTag = UserIdTag
datatype OrderIdTag = OrderIdTag
datatype UsdTag = UsdTag

type_synonym Price = "(int64, PriceTag) StrongType"
type_synonym Volume = "(int64, VolumeTag) StrongType"
type_synonym UserId = "(int64, UserIdTag) StrongType"
type_synonym OrderId = "(int64, OrderIdTag) StrongType"

abbreviation Price :: "int \<Rightarrow> Price" where
  "Price k \<equiv> StrongType (i64 k)"

abbreviation Volume :: "int \<Rightarrow> Volume" where
  "Volume k \<equiv> StrongType (i64 k)"

abbreviation UserId :: "int \<Rightarrow> UserId" where
  "UserId k \<equiv> StrongType (i64 k)"

abbreviation OrderId :: "int \<Rightarrow> OrderId" where
  "OrderId k \<equiv> StrongType (i64 k)"

text \<open>The number a price, a volume or an id stands for.\<close>

definition num :: "(int64, 'tag) StrongType \<Rightarrow> int" where
  "num x = ival (raw x)"

lemma num_0 [simp]: "num 0 = 0"
  by (simp add: num_def)

lemma num_inject [simp]: "num x = num y \<longleftrightarrow> x = y"
  by (cases x; cases y) (simp add: num_def)

lemma num_eq_0_iff [simp]: "num x = 0 \<longleftrightarrow> x = 0"
  using num_inject [of x 0] by simp

lemma num_range: "- (2 ^ 63) \<le> num x \<and> num x < 2 ^ 63"
  by (simp only: num_def ival_range)

lemma num_less: "num x < num y \<longleftrightarrow> x < y"
  by (simp add: num_def less_StrongType_def less_int64_def)

lemma num_le: "num x \<le> num y \<longleftrightarrow> x \<le> y"
  by (simp add: num_def less_eq_StrongType_def less_eq_int64_def)

lemma num_sign [simp]:
  "num x < 0 \<longleftrightarrow> x < 0" "0 < num x \<longleftrightarrow> 0 < x" "num x \<le> 0 \<longleftrightarrow> x \<le> 0" "0 \<le> num x \<longleftrightarrow> 0 \<le> x"
  using num_less [of x 0] num_less [of 0 x] num_le [of x 0] num_le [of 0 x] by simp_all

lemma num_min: "num (min x y) = min (num x) (num y)"
  by (simp add: num_def raw_min ival_min)

lemma num_diff_nonneg: "0 \<le> y \<Longrightarrow> y \<le> x \<Longrightarrow> num (x - y) = num x - num y"
  unfolding num_def raw_arith
  by (rule ival_diff_nonneg) (simp_all add: less_eq_StrongType_def)

lemma num_StrongType: "num (StrongType (i64 k)) = wrap64 k"
  by (simp add: num_def ival_i64)

lemma StrongType_zero_cmp [i64_simps]:
  "StrongType a \<le> 0 \<longleftrightarrow> a \<le> 0" "0 \<le> StrongType a \<longleftrightarrow> 0 \<le> a"
  "StrongType a < 0 \<longleftrightarrow> a < 0" "0 < StrongType a \<longleftrightarrow> 0 < a"
  "StrongType a = 0 \<longleftrightarrow> a = 0" "0 = StrongType a \<longleftrightarrow> a = 0"
  by (auto simp: zero_StrongType_def)

text \<open>Evaluation of closed terms over 64-bit literals.\<close>

lemmas i64_eval = i64_simps i64_add i64_diff i64_minus wrap64_def num_StrongType

section \<open>Tickers and instruments\<close>

text \<open>
  A ticker holds the characters of a \<open>boost::static_string<15>\<close>. The capacity is enforced
  where tickers are built from bytes.
\<close>

type_synonym Ticker = string

definition PRICE_MULTIPLIER :: int where
  "PRICE_MULTIPLIER = 1000000"

definition MAX_TICKER_LENGTH :: nat where
  "MAX_TICKER_LENGTH = 15"

definition INSTRUMENTS :: "Ticker list" where
  "INSTRUMENTS = [''AAPL'', ''GOOG'', ''MSFT'', ''AMZN'']"

section \<open>Orders, trades and inbound requests\<close>

datatype Side = Buy | Sell

record Order =
  o_userId :: UserId
  o_orderId :: OrderId
  o_price :: Price
  o_volume :: Volume

record Trade =
  t_makerId :: UserId
  t_takerId :: UserId
  t_makerOrderId :: OrderId
  t_takerOrderId :: OrderId
  t_ticker :: Ticker
  t_takerSide :: Side
  t_executionPrice :: Price
  t_volume :: Volume

record OrderAdd =
  a_orderId :: OrderId
  a_userId :: UserId
  a_ticker :: Ticker
  a_side :: Side
  a_price :: Price
  a_volume :: Volume

record OrderCancel =
  c_orderId :: OrderId
  c_userId :: UserId
  c_ticker :: Ticker

text \<open>The element of the queue between the gateway and the matching engine thread.\<close>

datatype InboundCommand = CmdAdd OrderAdd | CmdCancel OrderCancel

fun cmd_ticker :: "InboundCommand \<Rightarrow> Ticker" where
  "cmd_ticker (CmdAdd order) = a_ticker order"
| "cmd_ticker (CmdCancel c) = c_ticker c"

section \<open>The equity instrument\<close>

record Instrument =
  i_price :: Price
  i_ticker :: Ticker

definition mk_Instrument :: "Ticker \<Rightarrow> Price \<Rightarrow> Instrument" where
  "mk_Instrument ticker price = \<lparr>i_price = price, i_ticker = ticker\<rparr>"

definition CalcPnl :: "Instrument \<Rightarrow> Price \<Rightarrow> Price" where
  "CalcPnl i spot = spot - i_price i"

end
