(* ===== verification/Bytes.thy ===== *)
theory Bytes
  imports Prelude
begin

unbundle bit_operations_syntax

text \<open>
  Bytes in memory and on the wire: the little-endian layout of a 64-bit integer (the byte order of
  the machines the exchange runs on, and the one the client tools spell out), character data, and
  overwriting the front of a block of memory.
\<close>

type_synonym byte = "8 word"

section \<open>64-bit integers\<close>

definition le64 :: "int64 \<Rightarrow> byte list" where
  "le64 x = map (\<lambda>i. ucast (drop_bit (8 * i) (bits x))) [0..<8]"

definition un_le64 :: "byte list \<Rightarrow> int64" where
  "un_le64 bs = I64 (foldr (\<lambda>b w. ucast b OR push_bit 8 w) bs 0)"

lemma length_le64 [simp, byte_simps]: "length (le64 x) = 8"
  by (simp add: le64_def)

lemma foldr_bytes_bit:
  "bit (foldr (\<lambda>b w. ucast b OR push_bit 8 w) (bs :: byte list) (0 :: 64 word)) n \<longleftrightarrow>
     n < 64 \<and> n div 8 < length bs \<and> bit (bs ! (n div 8)) (n mod 8)"
proof (induction bs arbitrary: n)
  case (Cons b bs)
  show ?case
  proof (cases "n < 8")
    case True
    then show ?thesis by (simp add: bit_simps)
  next
    case False
    then have "n div 8 = Suc ((n - 8) div 8)" and "n mod 8 = (n - 8) mod 8"
      by (simp_all add: le_div_geq le_mod_geq)
    moreover have "\<not> bit b n" using False bit_imp_le_length [of b n] by auto
    ultimately show ?thesis
      using False Cons.IH [of "n - 8"] by (auto simp: bit_simps)
  qed
qed simp

lemma un_le64_le64 [simp, byte_simps]: "un_le64 (le64 x) = x"
proof -
  have "foldr (\<lambda>b w. ucast b OR push_bit 8 w) (le64 x) 0 = bits x"
  proof (rule bit_word_eqI)
    fix n assume "n < LENGTH(64)"
    then have "n < 64" and "n div 8 < 8" by simp_all
    then show "bit (foldr (\<lambda>b w. ucast b OR push_bit 8 w) (le64 x) (0 :: 64 word)) n = bit (bits x) n"
      using foldr_bytes_bit [of "le64 x" n] by (simp add: le64_def bit_simps del: upt_Suc)
  qed
  then show ?thesis by (simp add: un_le64_def)
qed

lemma le64_un_le64: "length bs = 8 \<Longrightarrow> le64 (un_le64 bs) = bs"
proof (rule nth_equalityI)
  fix i assume len: "length bs = 8" and "i < length (le64 (un_le64 bs))"
  then have i: "i < 8" by simp
  show "le64 (un_le64 bs) ! i = bs ! i"
  proof (rule bit_word_eqI)
    fix n assume "n < LENGTH(8)"
    then have "(8 * i + n) div 8 = i" and "(8 * i + n) mod 8 = n" and "8 * i + n < 64"
      using i by simp_all
    then show "bit (le64 (un_le64 bs) ! i) n = bit (bs ! i) n"
      using i len \<open>n < LENGTH(8)\<close> foldr_bytes_bit [of bs "8 * i + n"]
      by (simp add: le64_def un_le64_def bit_simps add.commute)
  qed
qed simp

section \<open>Characters\<close>

definition byte_of :: "char \<Rightarrow> byte" where
  "byte_of c = word_of_nat (of_char c)"

definition char_at :: "byte \<Rightarrow> char" where
  "char_at b = char_of (unat b)"

definition char_bytes :: "string \<Rightarrow> byte list" where
  "char_bytes s = map byte_of s"

definition bytes_char :: "byte list \<Rightarrow> string" where
  "bytes_char bs = map char_at bs"

lemma unat_byte_of [simp]: "unat (byte_of c) = of_char c"
  using nat_of_char_less_256 [of c] by (simp add: byte_of_def unat_of_nat)

lemma char_at_byte_of [simp]: "char_at (byte_of c) = c"
  by (simp add: char_at_def)

lemma byte_of_char_at [simp]: "byte_of (char_at b) = b"
proof -
  have "unat b < 256" using unsigned_less [of b] by simp
  then show ?thesis by (simp add: byte_of_def char_at_def)
qed

lemma bytes_char_bytes [simp, byte_simps]: "bytes_char (char_bytes s) = s"
  by (simp add: bytes_char_def char_bytes_def o_def)

lemma char_bytes_char [simp, byte_simps]: "char_bytes (bytes_char bs) = bs"
  by (simp add: bytes_char_def char_bytes_def o_def)

lemma length_char_bytes [simp, byte_simps]: "length (char_bytes s) = length s" "length (bytes_char bs) = length bs"
  by (simp_all add: char_bytes_def bytes_char_def)

definition NUL :: char where
  "NUL = CHR 0x00"

lemma byte_of_eq_0 [simp]: "byte_of c = 0 \<longleftrightarrow> c = NUL"
proof
  assume "byte_of c = 0"
  then have "of_char c = (0 :: nat)" by (metis unat_byte_of unat_0)
  then show "c = NUL" by (intro of_char_eqI) (simp add: NUL_def)
qed (simp add: NUL_def byte_of_def)

lemma zero_char_bytes: "0 \<in> set (char_bytes s) \<longleftrightarrow> NUL \<in> set s"
  by (force simp: char_bytes_def)

section \<open>Memory\<close>

text \<open>Writing at the start of a block leaves the rest of the block as it was.\<close>

definition overwrite :: "byte list \<Rightarrow> byte list \<Rightarrow> byte list" where
  "overwrite bs mem = bs @ drop (length bs) mem"

lemma overwrite_simps [simp, byte_simps]:
  "length bs \<le> length mem \<Longrightarrow> length (overwrite bs mem) = length mem"
  "take (length bs) (overwrite bs mem) = bs"
  by (simp_all add: overwrite_def)

end
