(* ===== verification/Wire.thy ===== *)
theory Wire
  imports Core_Types Bytes
begin

text \<open>
  The wire formats of \<open>common/net/wire.hpp\<close>: packed structs with 64-bit little-endian integers and a
  16-byte ticker field, a type byte in front, and a union that is as long as its longest member.
  A union is its bytes; reading a member reads those bytes, whatever was written there.
\<close>

section \<open>Inbound structs\<close>

definition WIRE_TICKER_SIZE :: nat where
  "WIRE_TICKER_SIZE = MAX_TICKER_LENGTH + 1"

record WireOrderAdd =
  wa_orderId :: int64
  wa_userId :: int64
  wa_ticker :: "byte list"
  wa_side :: byte
  wa_price :: int64
  wa_volume :: int64

record WireOrderCancel =
  wc_orderId :: int64
  wc_userId :: int64
  wc_ticker :: "byte list"

text \<open>The enumeration has an 8-bit underlying type and arrives from the network: any byte is a value.\<close>

definition InboundWireType_OrderAdd :: byte where
  "InboundWireType_OrderAdd = 0"

definition InboundWireType_OrderCancel :: byte where
  "InboundWireType_OrderCancel = 1"

definition sizeof_WireOrderAdd :: nat where
  "sizeof_WireOrderAdd = 8 + 8 + WIRE_TICKER_SIZE + 1 + 8 + 8"

definition sizeof_WireOrderCancel :: nat where
  "sizeof_WireOrderCancel = 8 + 8 + WIRE_TICKER_SIZE"

definition sizeof_InboundWireMessage :: nat where
  "sizeof_InboundWireMessage = 1 + max sizeof_WireOrderAdd sizeof_WireOrderCancel"

definition slice :: "nat \<Rightarrow> nat \<Rightarrow> byte list \<Rightarrow> byte list" where
  "slice offset n mem = take n (drop offset mem)"

definition read_WireOrderAdd :: "byte list \<Rightarrow> WireOrderAdd" where
  "read_WireOrderAdd mem =
     \<lparr>wa_orderId = un_le64 (slice 0 8 mem),
      wa_userId = un_le64 (slice 8 8 mem),
      wa_ticker = slice 16 WIRE_TICKER_SIZE mem,
      wa_side = mem ! 32,
      wa_price = un_le64 (slice 33 8 mem),
      wa_volume = un_le64 (slice 41 8 mem)\<rparr>"

definition read_WireOrderCancel :: "byte list \<Rightarrow> WireOrderCancel" where
  "read_WireOrderCancel mem =
     \<lparr>wc_orderId = un_le64 (slice 0 8 mem),
      wc_userId = un_le64 (slice 8 8 mem),
      wc_ticker = slice 16 WIRE_TICKER_SIZE mem\<rparr>"

record InboundWireMessage =
  im_type :: byte
  im_union :: "byte list"

definition im_orderAdd :: "InboundWireMessage \<Rightarrow> WireOrderAdd" where
  "im_orderAdd m = read_WireOrderAdd (im_union m)"

definition im_orderCancel :: "InboundWireMessage \<Rightarrow> WireOrderCancel" where
  "im_orderCancel m = read_WireOrderCancel (im_union m)"

text \<open>The \<open>reinterpret_cast\<close> of a full receive buffer.\<close>

definition InboundWireMessage_at :: "byte list \<Rightarrow> InboundWireMessage" where
  "InboundWireMessage_at buffer = \<lparr>im_type = hd buffer, im_union = tl buffer\<rparr>"

section \<open>Market data structs\<close>

record WireOrderAddEvent =
  wae_orderId :: int64
  wae_userId :: int64
  wae_ticker :: "byte list"
  wae_side :: byte
  wae_price :: int64
  wae_volume :: int64

record WireOrderCancelEvent =
  wce_orderId :: int64
  wce_userId :: int64
  wce_ticker :: "byte list"

record WireTradeEvent =
  wte_makerId :: int64
  wte_takerId :: int64
  wte_makerOrderId :: int64
  wte_takerOrderId :: int64
  wte_ticker :: "byte list"
  wte_takerSide :: byte
  wte_price :: int64
  wte_volume :: int64

datatype MarketEventType = EventOrderAdd | EventOrderCancel | EventTrade

fun MarketEventType_byte :: "MarketEventType \<Rightarrow> byte" where
  "MarketEventType_byte EventOrderAdd = 0"
| "MarketEventType_byte EventOrderCancel = 1"
| "MarketEventType_byte EventTrade = 2"

definition bytes_WireOrderAddEvent :: "WireOrderAddEvent \<Rightarrow> byte list" where
  "bytes_WireOrderAddEvent w =
     le64 (wae_orderId w) @ le64 (wae_userId w) @ wae_ticker w @ [wae_side w] @
     le64 (wae_price w) @ le64 (wae_volume w)"

definition bytes_WireOrderCancelEvent :: "WireOrderCancelEvent \<Rightarrow> byte list" where
  "bytes_WireOrderCancelEvent w = le64 (wce_orderId w) @ le64 (wce_userId w) @ wce_ticker w"

definition bytes_WireTradeEvent :: "WireTradeEvent \<Rightarrow> byte list" where
  "bytes_WireTradeEvent w =
     le64 (wte_makerId w) @ le64 (wte_takerId w) @ le64 (wte_makerOrderId w) @ le64 (wte_takerOrderId w) @
     wte_ticker w @ [wte_takerSide w] @ le64 (wte_price w) @ le64 (wte_volume w)"

definition sizeof_WireTradeEvent :: nat where
  "sizeof_WireTradeEvent = 8 + 8 + 8 + 8 + WIRE_TICKER_SIZE + 1 + 8 + 8"

definition sizeof_WireMarketDataMessage :: nat where
  "sizeof_WireMarketDataMessage = 1 + max (max sizeof_WireOrderAdd sizeof_WireOrderCancel) sizeof_WireTradeEvent"

record WireMarketDataMessage =
  md_type :: MarketEventType
  md_union :: "byte list"

definition bytes_WireMarketDataMessage :: "WireMarketDataMessage \<Rightarrow> byte list" where
  "bytes_WireMarketDataMessage m = MarketEventType_byte (md_type m) # md_union m"

text \<open>
  \<open>WireMarketDataMessage msg{}\<close> zeroes the first member of the union; the bytes behind that member are
  indeterminate and are the argument \<open>pad\<close> here.
\<close>

definition WireMarketDataMessage_init :: "byte list \<Rightarrow> WireMarketDataMessage" where
  "WireMarketDataMessage_init pad =
     \<lparr>md_type = EventOrderAdd, md_union = replicate sizeof_WireOrderAdd 0 @ pad\<rparr>"

section \<open>Encoding and decoding\<close>

text \<open>
  A ticker is a \<open>boost::static_string\<close> of capacity 15. Its constructor from characters is library
  code: it is the argument \<open>mk\<close> of the decoders, with its documented behaviour as the laws of
  \<open>static_string\<close>.
\<close>

locale static_string =
  fixes mk :: "string \<Rightarrow> Ticker res"
  assumes fits: "length s \<le> MAX_TICKER_LENGTH \<Longrightarrow> mk s = Inr s"
    and too_long: "MAX_TICKER_LENGTH < length s \<Longrightarrow> mk s = Inl LengthError"
begin

lemma mk_result: "mk s = Inr t \<longleftrightarrow> t = s \<and> length s \<le> MAX_TICKER_LENGTH"
  using fits [of s] too_long [of s] by (cases "length s \<le> MAX_TICKER_LENGTH") auto

end

definition EncodeTicker :: "Ticker \<Rightarrow> byte list" where
  "EncodeTicker ticker = overwrite (char_bytes ticker) (replicate WIRE_TICKER_SIZE 0)"

definition strnlen :: "byte list \<Rightarrow> nat" where
  "strnlen bs = length (takeWhile (\<lambda>b. b \<noteq> 0) bs)"

definition DecodeTicker :: "(string \<Rightarrow> Ticker res) \<Rightarrow> byte list \<Rightarrow> Ticker res" where
  "DecodeTicker mk bs = mk (bytes_char (take (strnlen bs) bs))"

definition DecodeOrderAdd :: "(string \<Rightarrow> Ticker res) \<Rightarrow> WireOrderAdd \<Rightarrow> OrderAdd res" where
  "DecodeOrderAdd mk w =
     bind_res (DecodeTicker mk (wa_ticker w)) (\<lambda>ticker. Inr
       \<lparr>a_orderId = StrongType (wa_orderId w),
        a_userId = StrongType (wa_userId w),
        a_ticker = ticker,
        a_side = (if wa_side w = 0 then Buy else Sell),
        a_price = StrongType (wa_price w),
        a_volume = StrongType (wa_volume w)\<rparr>)"

definition DecodeOrderCancel :: "(string \<Rightarrow> Ticker res) \<Rightarrow> WireOrderCancel \<Rightarrow> OrderCancel res" where
  "DecodeOrderCancel mk w =
     bind_res (DecodeTicker mk (wc_ticker w)) (\<lambda>ticker. Inr
       \<lparr>c_orderId = StrongType (wc_orderId w),
        c_userId = StrongType (wc_userId w),
        c_ticker = ticker\<rparr>)"

definition DecodeInboundMessage :: "(string \<Rightarrow> Ticker res) \<Rightarrow> InboundWireMessage \<Rightarrow> InboundCommand res" where
  "DecodeInboundMessage mk message =
     (if im_type message = InboundWireType_OrderAdd
      then bind_res (DecodeOrderAdd mk (im_orderAdd message)) (\<lambda>order. Inr (CmdAdd order))
      else bind_res (DecodeOrderCancel mk (im_orderCancel message)) (\<lambda>cancel. Inr (CmdCancel cancel)))"

definition EncodeOrderAddEvent :: "byte list \<Rightarrow> OrderAdd \<Rightarrow> WireMarketDataMessage" where
  "EncodeOrderAddEvent pad order =
     (let msg = WireMarketDataMessage_init pad;
          event = \<lparr>wae_orderId = raw (a_orderId order),
                   wae_userId = raw (a_userId order),
                   wae_ticker = EncodeTicker (a_ticker order),
                   wae_side = (if a_side order = Buy then 0 else 1),
                   wae_price = raw (a_price order),
                   wae_volume = raw (a_volume order)\<rparr>
      in msg\<lparr>md_type := EventOrderAdd, md_union := overwrite (bytes_WireOrderAddEvent event) (md_union msg)\<rparr>)"

definition EncodeOrderCancelEvent :: "byte list \<Rightarrow> OrderCancel \<Rightarrow> WireMarketDataMessage" where
  "EncodeOrderCancelEvent pad cancel =
     (let msg = WireMarketDataMessage_init pad;
          event = \<lparr>wce_orderId = raw (c_orderId cancel),
                   wce_userId = raw (c_userId cancel),
                   wce_ticker = EncodeTicker (c_ticker cancel)\<rparr>
      in msg\<lparr>md_type := EventOrderCancel, md_union := overwrite (bytes_WireOrderCancelEvent event) (md_union msg)\<rparr>)"

definition EncodeTradeEvent :: "byte list \<Rightarrow> Trade \<Rightarrow> WireMarketDataMessage" where
  "EncodeTradeEvent pad trade =
     (let msg = WireMarketDataMessage_init pad;
          event = \<lparr>wte_makerId = raw (t_makerId trade),
                   wte_takerId = raw (t_takerId trade),
                   wte_makerOrderId = raw (t_makerOrderId trade),
                   wte_takerOrderId = raw (t_takerOrderId trade),
                   wte_ticker = EncodeTicker (t_ticker trade),
                   wte_takerSide = (if t_takerSide trade = Buy then 0 else 1),
                   wte_price = raw (t_executionPrice trade),
                   wte_volume = raw (t_volume trade)\<rparr>
      in msg\<lparr>md_type := EventTrade, md_union := overwrite (bytes_WireTradeEvent event) (md_union msg)\<rparr>)"

section \<open>Layout lemmas\<close>

lemmas wire_sizes [byte_simps] =
  WIRE_TICKER_SIZE_def MAX_TICKER_LENGTH_def sizeof_WireOrderAdd_def sizeof_WireOrderCancel_def
  sizeof_InboundWireMessage_def sizeof_WireTradeEvent_def sizeof_WireMarketDataMessage_def

lemma slice_skip: "length as \<le> n \<Longrightarrow> slice n k (as @ bs) = slice (n - length as) k bs"
  by (simp add: slice_def)

lemma slice_here: "length as = k \<Longrightarrow> slice 0 k (as @ bs) = as" "length as = k \<Longrightarrow> slice 0 k as = as"
  by (simp_all add: slice_def)

lemma nth_skip: "length as \<le> n \<Longrightarrow> (as @ bs) ! n = bs ! (n - length as)"
  by (simp add: nth_append)

lemma slice_Cons: "0 < n \<Longrightarrow> slice n k (b # bs) = slice (n - 1) k bs"
  by (cases n) (simp_all add: slice_def)

lemmas layout_simps = slice_skip slice_Cons slice_here nth_skip

definition ticker_ok :: "Ticker \<Rightarrow> bool" where
  "ticker_ok t \<longleftrightarrow> length t \<le> MAX_TICKER_LENGTH \<and> NUL \<notin> set t"

lemma EncodeTicker_eq:
  "length t \<le> WIRE_TICKER_SIZE \<Longrightarrow> EncodeTicker t = char_bytes t @ replicate (WIRE_TICKER_SIZE - length t) 0"
  by (simp add: EncodeTicker_def overwrite_def)

lemma length_EncodeTicker [byte_simps]: "length t \<le> WIRE_TICKER_SIZE \<Longrightarrow> length (EncodeTicker t) = WIRE_TICKER_SIZE"
  by (simp add: EncodeTicker_eq)

lemma take_strnlen: "take (strnlen bs) bs = takeWhile (\<lambda>b. b \<noteq> 0) bs"
  by (simp add: strnlen_def takeWhile_eq_take [symmetric])

lemma takeWhile_EncodeTicker: "ticker_ok t \<Longrightarrow> takeWhile (\<lambda>b. b \<noteq> 0) (EncodeTicker t) = char_bytes t"
proof -
  assume t: "ticker_ok t"
  then have "takeWhile (\<lambda>b. b \<noteq> 0) (char_bytes t @ bs) = char_bytes t @ takeWhile (\<lambda>b. b \<noteq> 0) bs" for bs
    using zero_char_bytes [of t] by (intro takeWhile_append2) (auto simp: ticker_ok_def)
  then show ?thesis
    using t by (simp add: ticker_ok_def EncodeTicker_eq WIRE_TICKER_SIZE_def)
qed

context static_string
begin

lemma DecodeTicker_result:
  "DecodeTicker mk bs = Inr t \<longleftrightarrow>
     t = bytes_char (takeWhile (\<lambda>b. b \<noteq> 0) bs) \<and> length (takeWhile (\<lambda>b. b \<noteq> 0) bs) \<le> MAX_TICKER_LENGTH"
  by (auto simp: DecodeTicker_def take_strnlen mk_result)

lemma DecodeTicker_ok: "DecodeTicker mk bs = Inr t \<Longrightarrow> ticker_ok t"
  using zero_char_bytes [of t] set_takeWhileD [of 0 "\<lambda>b. b \<noteq> 0" bs]
  by (auto simp: DecodeTicker_result ticker_ok_def)

lemma DecodeTicker_EncodeTicker: "ticker_ok t \<Longrightarrow> DecodeTicker mk (EncodeTicker t) = Inr t"
  by (simp add: DecodeTicker_result takeWhile_EncodeTicker) (simp add: ticker_ok_def)

lemma DecodeTicker_full: "length bs = WIRE_TICKER_SIZE \<Longrightarrow> 0 \<notin> set bs \<Longrightarrow> DecodeTicker mk bs = Inl LengthError"
proof -
  assume bs: "length bs = WIRE_TICKER_SIZE" "0 \<notin> set bs"
  then have "takeWhile (\<lambda>b. b \<noteq> 0) bs = bs" unfolding takeWhile_eq_all_conv by metis
  then have "DecodeTicker mk bs = mk (bytes_char bs)" by (simp only: DecodeTicker_def take_strnlen)
  with bs show ?thesis by (simp add: too_long WIRE_TICKER_SIZE_def)
qed

lemma DecodeInboundMessage_ok:
  "DecodeInboundMessage mk m = Inr (CmdAdd order) \<Longrightarrow> ticker_ok (a_ticker order)"
  "DecodeInboundMessage mk m = Inr (CmdCancel cancel) \<Longrightarrow> ticker_ok (c_ticker cancel)"
  by (auto simp: DecodeInboundMessage_def DecodeOrderAdd_def DecodeOrderCancel_def bind_res_eq_Inr
      dest: DecodeTicker_ok split: if_splits)

end

text \<open>The laws hold of a constructor that checks the length and stores the characters.\<close>

definition checked_string :: "string \<Rightarrow> Ticker res" where
  "checked_string s = (if length s \<le> MAX_TICKER_LENGTH then Inr s else Inl LengthError)"

interpretation checked: static_string checked_string
  by unfold_locales (simp_all add: checked_string_def)

lemma read_WireOrderAdd_layout:
  "length t = WIRE_TICKER_SIZE \<Longrightarrow>
   read_WireOrderAdd (le64 a @ le64 b @ t @ [s] @ le64 p @ le64 v @ rest) =
     \<lparr>wa_orderId = a, wa_userId = b, wa_ticker = t, wa_side = s, wa_price = p, wa_volume = v\<rparr>"
  by (simp add: read_WireOrderAdd_def layout_simps wire_sizes)

lemma read_WireOrderCancel_layout:
  "length t = WIRE_TICKER_SIZE \<Longrightarrow>
   read_WireOrderCancel (le64 a @ le64 b @ t @ rest) = \<lparr>wc_orderId = a, wc_userId = b, wc_ticker = t\<rparr>"
  by (simp add: read_WireOrderCancel_def layout_simps wire_sizes)

end
