(* ===== verification/Client_Tools.thy ===== *)
theory Client_Tools
  imports Wire "HOL-Library.AList"
begin

text \<open>
  The Python side of the wire, \<open>tools/wire.py\<close> and the order book of \<open>tools/orderbook_listener.py\<close>.
  Python integers are unbounded, \<open>struct.pack\<close> checks ranges, a raised exception is a value, and a
  dictionary is an association list in insertion order.
\<close>

section \<open>\<open>struct\<close>\<close>

datatype pyexn = Struct_error | Value_error | Unicode_encode_error | Unicode_decode_error | Assertion_error
  | Key_error | Index_error | Overflow_error

type_synonym 'a pyres = "pyexn + 'a"

definition pack_q :: "int \<Rightarrow> byte list pyres" where
  "pack_q k =
     (if - (2 ^ 63) \<le> k \<and> k < 2 ^ 63 then Inr (map (\<lambda>i. word_of_int (k div 256 ^ i)) [0..<8]) else Inl Struct_error)"

definition pack_B :: "int \<Rightarrow> byte list pyres" where
  "pack_B k = (if 0 \<le> k \<and> k < 256 then Inr [word_of_int k] else Inl Struct_error)"

definition pack_s :: "nat \<Rightarrow> byte list \<Rightarrow> byte list pyres" where
  "pack_s n bs = Inr (take n bs @ replicate (n - length bs) 0)"

definition ljust :: "nat \<Rightarrow> byte list \<Rightarrow> byte list" where
  "ljust n bs = bs @ replicate (n - length bs) 0"

text \<open>\<open>struct.pack\<close> with several fields, without alignment as the leading \<open><\<close> asks.\<close>

fun pack :: "byte list pyres list \<Rightarrow> byte list pyres" where
  "pack [] = Inr []"
| "pack (f # fs) = bind_res f (\<lambda>bs. bind_res (pack fs) (\<lambda>rest. Inr (bs @ rest)))"

definition unpack_q :: "byte list \<Rightarrow> int" where
  "unpack_q bs =
     (let u = foldr (\<lambda>b k. uint b + 256 * k) bs 0
      in if u < 2 ^ 63 then u else u - 2 ^ 64)"

section \<open>Tickers\<close>

definition is_ascii :: "byte \<Rightarrow> bool" where
  "is_ascii b \<longleftrightarrow> unat b < 128"

definition encode_ticker :: "string \<Rightarrow> byte list pyres" where
  "encode_ticker ticker =
     (if \<not> list_all is_ascii (char_bytes ticker) then Inl Unicode_encode_error
      else if length ticker \<ge> WIRE_TICKER_SIZE then Inl Value_error
      else Inr (ljust WIRE_TICKER_SIZE (char_bytes ticker)))"

definition decode_ticker :: "byte list \<Rightarrow> string pyres" where
  "decode_ticker bs =
     (let name = takeWhile (\<lambda>b. b \<noteq> 0) bs
      in if list_all is_ascii name then Inr (bytes_char name) else Inl Unicode_decode_error)"

section \<open>Inbound messages\<close>

definition INBOUND_UNION_SIZE :: nat where
  "INBOUND_UNION_SIZE = 49"

definition INBOUND_MESSAGE_SIZE :: nat where
  "INBOUND_MESSAGE_SIZE = 1 + INBOUND_UNION_SIZE"

definition encode_order_add :: "int \<Rightarrow> int \<Rightarrow> string \<Rightarrow> int \<Rightarrow> int \<Rightarrow> int \<Rightarrow> byte list pyres" where
  "encode_order_add order_id user_id ticker side price volume =
     bind_res (encode_ticker ticker) (\<lambda>t.
     bind_res (pack [pack_q order_id, pack_q user_id, pack_s 16 t, pack_B side, pack_q price, pack_q volume]) (\<lambda>payload.
     bind_res (pack [pack_B 0]) (\<lambda>typ.
       let message = typ @ ljust INBOUND_UNION_SIZE payload
       in if length message = INBOUND_MESSAGE_SIZE then Inr message else Inl Assertion_error)))"

definition encode_order_cancel :: "int \<Rightarrow> int \<Rightarrow> string \<Rightarrow> byte list pyres" where
  "encode_order_cancel order_id user_id ticker =
     bind_res (encode_ticker ticker) (\<lambda>t.
     bind_res (pack [pack_q order_id, pack_q user_id, pack_s 16 t]) (\<lambda>payload.
     bind_res (pack [pack_B 1]) (\<lambda>typ.
       let message = typ @ ljust INBOUND_UNION_SIZE payload
       in if length message = INBOUND_MESSAGE_SIZE then Inr message else Inl Assertion_error)))"

section \<open>Market data\<close>

datatype Event =
    OrderAddEvent (ev_orderId: int) (ev_userId: int) (ev_ticker: string) (ev_side: string) (ev_price: int) (ev_volume: int)
  | OrderCancelEvent (ev_orderId: int) (ev_userId: int) (ev_ticker: string)
  | TradeEvent (ev_makerId: int) (ev_takerId: int) (ev_makerOrderId: int) (ev_takerOrderId: int)
      (ev_ticker: string) (ev_takerSide: string) (ev_price: int) (ev_volume: int)
  | UnknownEvent "byte list"

definition MARKET_DATA_MESSAGE_SIZE :: nat where
  "MARKET_DATA_MESSAGE_SIZE = 1 + 65"

definition side_name :: "byte \<Rightarrow> string" where
  "side_name b = (if b = 0 then ''Buy'' else ''Sell'')"

definition decode_market_data :: "byte list \<Rightarrow> Event pyres" where
  "decode_market_data data =
     (if length data \<noteq> MARKET_DATA_MESSAGE_SIZE then Inl Value_error
      else let event_type = data ! 0; payload = drop 1 data
        in if event_type = 0 then
             bind_res (decode_ticker (slice 16 16 payload)) (\<lambda>ticker. Inr (OrderAddEvent
               (unpack_q (slice 0 8 payload)) (unpack_q (slice 8 8 payload)) ticker (side_name (payload ! 32))
               (unpack_q (slice 33 8 payload)) (unpack_q (slice 41 8 payload))))
           else if event_type = 1 then
             bind_res (decode_ticker (slice 16 16 payload)) (\<lambda>ticker. Inr (OrderCancelEvent
               (unpack_q (slice 0 8 payload)) (unpack_q (slice 8 8 payload)) ticker))
           else if event_type = 2 then
             bind_res (decode_ticker (slice 32 16 payload)) (\<lambda>ticker. Inr (TradeEvent
               (unpack_q (slice 0 8 payload)) (unpack_q (slice 8 8 payload))
               (unpack_q (slice 16 8 payload)) (unpack_q (slice 24 8 payload)) ticker (side_name (payload ! 48))
               (unpack_q (slice 49 8 payload)) (unpack_q (slice 57 8 payload))))
           else Inr (UnknownEvent data))"

section \<open>The listener's order book\<close>

record OpenOrder =
  oo_ticker :: string
  oo_side :: string
  oo_price :: int
  oo_volume :: int

type_synonym OrderBook = "(int \<times> OpenOrder) list"

definition reduce_order :: "int \<Rightarrow> int \<Rightarrow> OrderBook \<Rightarrow> OrderBook" where
  "reduce_order order_id volume open_orders =
     (case map_of open_orders order_id of
        None \<Rightarrow> open_orders
      | Some order \<Rightarrow>
          let order = order\<lparr>oo_volume := oo_volume order - volume\<rparr>;
              open_orders = AList.update order_id order open_orders
          in if oo_volume order \<le> 0 then AList.delete order_id open_orders else open_orders)"

fun apply_event :: "Event \<Rightarrow> OrderBook \<Rightarrow> OrderBook" where
  "apply_event (OrderAddEvent order_id user_id ticker side price volume) open_orders =
     AList.update order_id \<lparr>oo_ticker = ticker, oo_side = side, oo_price = price, oo_volume = volume\<rparr> open_orders"
| "apply_event (OrderCancelEvent order_id user_id ticker) open_orders = AList.delete order_id open_orders"
| "apply_event (TradeEvent maker_id taker_id maker_order_id taker_order_id ticker taker_side price volume) open_orders =
     fold (\<lambda>order_id. reduce_order order_id volume) [maker_order_id, taker_order_id] open_orders"
| "apply_event (UnknownEvent data) open_orders = open_orders"

definition levels :: "string \<Rightarrow> OrderBook \<Rightarrow> (int \<times> int) list \<times> (int \<times> int) list" where
  "levels ticker open_orders =
     fold (\<lambda>(order_id, order) (bids, asks).
        if oo_ticker order \<noteq> ticker then (bids, asks)
        else if oo_side order = ''Buy''
          then (AList.update (oo_price order) (case_option 0 id (map_of bids (oo_price order)) + oo_volume order) bids, asks)
          else (bids, AList.update (oo_price order) (case_option 0 id (map_of asks (oo_price order)) + oo_volume order) asks))
       open_orders ([], [])"

section \<open>Both sides of the wire\<close>

lemma pack_q_le64: "pack_q k = Inr bs \<longleftrightarrow> in_i64 k \<and> bs = le64 (i64 k)"
proof -
  have "(word_of_int (k div 256 ^ i) :: byte) = ucast (drop_bit (8 * i) (word_of_int k :: 64 word))" if "i < 8" for i
  proof (rule bit_word_eqI)
    fix n assume n: "n < LENGTH(8)"
    have "k div 256 ^ i = drop_bit (8 * i) k"
      by (simp add: drop_bit_eq_div power_mult)
    then show "bit (word_of_int (k div 256 ^ i) :: byte) n =
        bit (ucast (drop_bit (8 * i) (word_of_int k :: 64 word)) :: byte) n"
      using n that by (auto simp: bit_simps)
  qed
  then have "map (\<lambda>i. word_of_int (k div 256 ^ i) :: byte) [0..<8] = le64 (i64 k)"
    by (simp add: le64_def i64_def)
  then show ?thesis
    by (auto simp: pack_q_def in_i64_def)
qed

lemma foldr_int_bit:
  "bit (foldr (\<lambda>b k. uint b + 256 * k) (bs :: byte list) 0) n \<longleftrightarrow> n div 8 < length bs \<and> bit (bs ! (n div 8)) (n mod 8)"
proof (induction bs arbitrary: n)
  case (Cons b bs)
  let ?k = "foldr (\<lambda>b k. uint b + 256 * k) bs 0"
  have small: "\<not> bit b m" if "8 \<le> m" for m using that bit_imp_le_length [of b m] by auto
  have "uint b + 256 * ?k = uint b + push_bit 8 ?k"
    by (simp add: push_bit_eq_mult)
  also have "\<dots> = uint b OR push_bit 8 ?k"
    using small by (intro disjunctive_add) (auto simp: bit_simps)
  finally have "uint b + 256 * ?k = uint b OR push_bit 8 ?k" .
  then have "bit (uint b + 256 * ?k) n \<longleftrightarrow> bit b n \<or> 8 \<le> n \<and> bit ?k (n - 8)"
    using small [of n] by (auto simp: bit_simps)
  moreover have "n div 8 = Suc ((n - 8) div 8)" "n mod 8 = (n - 8) mod 8" if "8 \<le> n"
    using that by (simp_all add: le_div_geq le_mod_geq)
  ultimately show ?case
    using Cons.IH [of "n - 8"] small by (cases "8 \<le> n") auto
qed simp

lemma unpack_q_le64 [simp]: "unpack_q (le64 x) = ival x"
proof -
  have "foldr (\<lambda>b k. uint b + 256 * k) (le64 x) 0 = uint (bits (un_le64 (le64 x)))"
    by (rule bit_eqI) (auto simp: un_le64_def foldr_int_bit bit_uint_iff foldr_bytes_bit less_mult_imp_div_less)
  then have "unpack_q (le64 x) = (if uint (bits x) < 2 ^ 63 then uint (bits x) else uint (bits x) - 2 ^ 64)"
    by (simp add: unpack_q_def)
  then show ?thesis
    using uint_bits [of x] ival_range [of x] by simp
qed

end
