(* ===== verification/Binary64.thy ===== *)
theory Binary64
  imports Complex_Main Prelude "HOL-Library.Log_Nat"
begin

text \<open>
  The C++ type \<open>double\<close>: IEEE 754 binary64 with rounding to nearest, ties to even. A finite value is its
  sign and its magnitude, a rational number; zero has a sign. Every operation computes the exact
  result and rounds it once.
\<close>

section \<open>Rounding\<close>

text \<open>The exponent of a positive number: \<open>2 powi ilog2 r \<le> r < 2 powi (ilog2 r + 1)\<close>.\<close>

definition ilog2 :: "rat \<Rightarrow> int" where
  "ilog2 r = (if 1 \<le> r then bitlen \<lfloor>r\<rfloor> - 1 else - bitlen (\<lceil>1 / r\<rceil> - 1))"

definition half_even :: "rat \<Rightarrow> int" where
  "half_even x =
     (let n = \<lfloor>x\<rfloor>; f = x - of_int n
      in if f < 1 / 2 then n else if 1 / 2 < f then n + 1 else if even n then n else n + 1)"

text \<open>The unit in the last place of a number: 53 significant bits, no exponent below that of the subnormals.\<close>

definition ulp_exp :: "rat \<Rightarrow> int" where
  "ulp_exp r = max (ilog2 r - 52) (- 1074)"

definition rnd :: "rat \<Rightarrow> rat" where
  "rnd r = (if r = 0 then 0 else of_int (half_even (r / 2 powi ulp_exp r)) * 2 powi ulp_exp r)"

section \<open>Values and operations\<close>

datatype double = NaN | Inf bool | Fin bool rat

fun finite_value :: "double \<Rightarrow> rat" where
  "finite_value (Fin neg m) = (if neg then - m else m)"
| "finite_value _ = 0"

definition round_double :: "bool \<Rightarrow> rat \<Rightarrow> double" where
  "round_double neg m = (let r = rnd m in if 2 ^ 1024 \<le> r then Inf neg else Fin neg r)"

definition rounded :: "rat \<Rightarrow> double" where
  "rounded x = round_double (x < 0) \<bar>x\<bar>"

fun dneg :: "double \<Rightarrow> double" where
  "dneg NaN = NaN"
| "dneg (Inf s) = Inf (\<not> s)"
| "dneg (Fin s m) = Fin (\<not> s) m"

fun dadd :: "double \<Rightarrow> double \<Rightarrow> double" where
  "dadd (Fin s a) (Fin t b) =
     (let x = finite_value (Fin s a) + finite_value (Fin t b)
      in if x = 0 then Fin (s \<and> t) 0 else rounded x)"
| "dadd (Inf s) (Inf t) = (if s = t then Inf s else NaN)"
| "dadd (Inf s) (Fin t b) = Inf s"
| "dadd (Fin s a) (Inf t) = Inf t"
| "dadd _ _ = NaN"

definition dsub :: "double \<Rightarrow> double \<Rightarrow> double" where
  "dsub x y = dadd x (dneg y)"

fun dmul :: "double \<Rightarrow> double \<Rightarrow> double" where
  "dmul (Fin s a) (Fin t b) = round_double (s \<noteq> t) (a * b)"
| "dmul (Inf s) (Inf t) = Inf (s \<noteq> t)"
| "dmul (Inf s) (Fin t b) = (if b = 0 then NaN else Inf (s \<noteq> t))"
| "dmul (Fin s a) (Inf t) = (if a = 0 then NaN else Inf (s \<noteq> t))"
| "dmul _ _ = NaN"

fun ddiv :: "double \<Rightarrow> double \<Rightarrow> double" where
  "ddiv (Fin s a) (Fin t b) =
     (if b = 0 then if a = 0 then NaN else Inf (s \<noteq> t) else round_double (s \<noteq> t) (a / b))"
| "ddiv (Inf s) (Fin t b) = Inf (s \<noteq> t)"
| "ddiv (Fin s a) (Inf t) = Fin (s \<noteq> t) 0"
| "ddiv _ _ = NaN"

text \<open>\<open>static_cast<double>\<close> of an integer.\<close>

definition double_of_i64 :: "int64 \<Rightarrow> double" where
  "double_of_i64 k = rounded (of_int (ival k))"

text \<open>\<open>std::llround\<close>: halves away from zero; \<open>None\<close> where the C library leaves the result unspecified.\<close>

definition half_away :: "rat \<Rightarrow> int" where
  "half_away x = (if 0 \<le> x then \<lfloor>x + 1 / 2\<rfloor> else - \<lfloor>- x + 1 / 2\<rfloor>)"

fun llround :: "double \<Rightarrow> int64 option" where
  "llround (Fin s m) = (let k = half_away (finite_value (Fin s m)) in if in_i64 k then Some (i64 k) else None)"
| "llround _ = None"

section \<open>Facts about rounding\<close>

lemma two_powi_less: "(2 :: rat) powi a < 2 powi b \<longleftrightarrow> a < b"
  using power_int_strict_increasing [of a b "2 :: rat"] power_int_increasing [of b a "2 :: rat"] by fastforce

lemma two_powi_nat: "0 \<le> k \<Longrightarrow> (2 :: rat) powi k = 2 ^ nat k" "0 \<le> k \<Longrightarrow> (2 :: rat) powi (- k) = 1 / 2 ^ nat k"
  by (simp_all add: power_int_def power_one_over)

lemma ilog2_bounds:
  assumes "0 < r"
  shows "2 powi ilog2 r \<le> r" and "r < 2 powi (ilog2 r + 1)"
proof -
  have "2 powi ilog2 r \<le> r \<and> r < 2 powi (ilog2 r + 1)"
  proof (cases "1 \<le> r")
    case True
    let ?n = "\<lfloor>r\<rfloor>"
    have n: "1 \<le> ?n" using True by simp
    then have b: "2 ^ nat (bitlen ?n - 1) \<le> ?n" "?n < 2 ^ nat (bitlen ?n)" "1 \<le> bitlen ?n"
      using bitlen_bounds [of ?n] bitlen_ge_iff_power [of 1 ?n] by auto
    have "(2 :: rat) ^ nat (bitlen ?n - 1) \<le> of_int ?n"
      using b(1) of_int_le_iff [of "2 ^ nat (bitlen ?n - 1)" ?n, where 'a = rat] by simp
    also have "\<dots> \<le> r" by simp
    finally have lower: "2 ^ nat (bitlen ?n - 1) \<le> r" .
    have "r < of_int (?n + 1)" by linarith
    also have "\<dots> \<le> of_int (2 ^ nat (bitlen ?n))"
      using b(2) by (intro of_int_le_iff [THEN iffD2]) simp
    finally have "r < 2 ^ nat (bitlen ?n)" by simp
    with lower b(3) True show ?thesis by (simp add: ilog2_def two_powi_nat)
  next
    case False
    let ?m = "\<lceil>1 / r\<rceil> - 1"
    have "1 < 1 / r" using False assms by simp
    then have m: "1 \<le> ?m" by linarith
    then have b: "2 ^ nat (bitlen ?m - 1) \<le> ?m" "?m < 2 ^ nat (bitlen ?m)" "1 \<le> bitlen ?m"
      using bitlen_bounds [of ?m] bitlen_ge_iff_power [of 1 ?m] by auto
    have "(2 :: rat) ^ nat (bitlen ?m - 1) \<le> of_int ?m"
      using b(1) of_int_le_iff [of "2 ^ nat (bitlen ?m - 1)" ?m, where 'a = rat] by simp
    also have "\<dots> < 1 / r" by linarith
    finally have upper: "r < 1 / 2 ^ nat (bitlen ?m - 1)"
      using assms by (simp add: field_simps)
    have "1 / r \<le> of_int (?m + 1)" by simp
    also have "\<dots> \<le> of_int (2 ^ nat (bitlen ?m))"
      using b(2) by (intro of_int_le_iff [THEN iffD2]) simp
    finally have "1 / 2 ^ nat (bitlen ?m) \<le> r"
      using assms by (simp add: field_simps)
    moreover have "- bitlen ?m + 1 = - (bitlen ?m - 1)" by simp
    moreover have "0 \<le> bitlen ?m - 1" "0 \<le> bitlen ?m" using b(3) by simp_all
    ultimately show ?thesis
      using upper False by (simp only: ilog2_def two_powi_nat if_False)
  qed
  then show "2 powi ilog2 r \<le> r" and "r < 2 powi (ilog2 r + 1)" by simp_all
qed

lemma half_even_error: "\<bar>of_int (half_even x) - x\<bar> \<le> 1 / 2"
proof -
  have "of_int \<lfloor>x\<rfloor> \<le> x" "x < of_int \<lfloor>x\<rfloor> + 1" by linarith+
  then show ?thesis by (auto simp: half_even_def Let_def abs_le_iff)
qed

lemma half_even_int [simp]: "half_even (of_int n) = n"
  by (simp add: half_even_def)

lemma rnd_error_ulp:
  assumes "0 < r"
  shows "\<bar>rnd r - r\<bar> \<le> 2 powi ulp_exp r / 2"
proof -
  let ?u = "(2 :: rat) powi ulp_exp r"
  have u: "0 < ?u" by simp
  have "rnd r - r = (of_int (half_even (r / ?u)) - r / ?u) * ?u"
    using assms by (simp add: rnd_def left_diff_distrib)
  then have "\<bar>rnd r - r\<bar> = \<bar>of_int (half_even (r / ?u)) - r / ?u\<bar> * ?u"
    using u by (simp add: abs_mult)
  also have "\<dots> \<le> 1 / 2 * ?u"
    using u by (intro mult_right_mono half_even_error) simp
  finally show ?thesis by simp
qed

text \<open>In the normal range the relative error is at most half a unit in the last place.\<close>

lemma rnd_error:
  assumes "2 powi (- 1022) \<le> r"
  shows "\<bar>rnd r - r\<bar> \<le> r / 2 ^ 53"
proof -
  have r: "0 < r" using assms by (meson order_less_le_trans zero_less_numeral zero_less_power_int)
  have "2 powi (- 1022) < (2 :: rat) powi (ilog2 r + 1)"
    using assms ilog2_bounds(2) [OF r] by simp
  then have "ulp_exp r = ilog2 r - 52"
    unfolding two_powi_less ulp_exp_def by simp
  then have "(2 :: rat) powi ulp_exp r / 2 = 2 powi ilog2 r / 2 ^ 53"
    by (simp add: power_int_diff)
  also have "\<dots> \<le> r / 2 ^ 53"
    using ilog2_bounds(1) [OF r] by (simp add: divide_right_mono)
  finally show ?thesis using rnd_error_ulp [OF r] by simp
qed

text \<open>What 53 bits can represent is not changed by rounding.\<close>

definition representable :: "rat \<Rightarrow> bool" where
  "representable r \<longleftrightarrow> (\<exists>m e. r = of_int m * 2 powi e \<and> 0 \<le> m \<and> m < 2 ^ 53 \<and> - 1074 \<le> e)"

lemma rnd_representable:
  assumes "representable r"
  shows "rnd r = r"
proof (cases "r = 0")
  case False
  obtain m e where r: "r = of_int m * 2 powi e" and m: "0 \<le> m" "m < 2 ^ 53" and e: "- 1074 \<le> e"
    using assms by (auto simp: representable_def)
  have "m \<noteq> 0" using False r by auto
  then have pos: "0 < r" using m r by simp
  have "2 powi ilog2 r \<le> r" by (rule ilog2_bounds(1) [OF pos])
  also have "r < 2 ^ 53 * 2 powi e"
    unfolding r using m(2) of_int_less_iff [of m "2 ^ 53", where 'a = rat] by (intro mult_strict_right_mono) simp_all
  also have "(2 :: rat) ^ 53 * 2 powi e = 2 powi (53 + e)"
    by (simp add: power_int_add)
  finally have "ilog2 r < 53 + e" by (simp only: two_powi_less)
  then have u: "ulp_exp r \<le> e" using e by (simp add: ulp_exp_def)
  define d where "d = nat (e - ulp_exp r)"
  have "(2 :: rat) powi e = 2 powi ulp_exp r * 2 ^ d"
    using u by (simp add: d_def two_powi_nat(1) [symmetric] power_int_add [symmetric])
  then have "r = of_int m * (2 powi ulp_exp r * 2 ^ d)"
    using r by argo
  then have "r = of_int (m * 2 ^ d) * 2 powi ulp_exp r"
    by (simp only: of_int_mult of_int_power of_int_numeral mult.assoc mult.commute mult.left_commute)
  then have "r / 2 powi ulp_exp r = of_int (m * 2 ^ d)"
    by (metis nonzero_mult_div_cancel_right power_int_eq_0_iff zero_neq_numeral)
  then show ?thesis
    using False by (simp only: rnd_def half_even_int if_False) (simp add: field_simps)
qed (simp add: rnd_def)

lemma representable_int: "0 \<le> m \<Longrightarrow> m < 2 ^ 53 \<Longrightarrow> representable (of_int m)"
  unfolding representable_def by (intro exI [of _ m] exI [of _ 0]) simp

lemma rounded_int: "\<bar>k\<bar> < 2 ^ 53 \<Longrightarrow> rounded (of_int k) = Fin (k < 0) \<bar>of_int k\<bar>"
proof -
  assume k: "\<bar>k\<bar> < 2 ^ 53"
  have "rnd (of_int \<bar>k\<bar>) = of_int \<bar>k\<bar>" using k by (intro rnd_representable representable_int) auto
  moreover have "(of_int \<bar>k\<bar> :: rat) < of_int (2 ^ 53)" using k by (simp only: of_int_less_iff)
  then have "\<not> 2 ^ 1024 \<le> (of_int \<bar>k\<bar> :: rat)"
    using power_strict_increasing [of 53 1024 "2 :: rat"] by (simp only: of_int_power of_int_numeral) linarith
  ultimately show ?thesis by (simp add: rounded_def round_double_def)
qed

section \<open>Accumulated error\<close>

text \<open>\<open>rounds k x y\<close>: the computed \<open>y\<close> differs from the exact \<open>x\<close> by at most \<open>k\<close> roundings.\<close>

definition eps :: rat where
  "eps = 1 / 2 ^ 53"

definition rounds :: "nat \<Rightarrow> rat \<Rightarrow> rat \<Rightarrow> bool" where
  "rounds k x y \<longleftrightarrow> 0 \<le> x \<and> x * (1 - eps) ^ k \<le> y \<and> y \<le> x * (1 + eps) ^ k"

definition normal :: "rat \<Rightarrow> bool" where
  "normal y \<longleftrightarrow> y = 0 \<or> 2 powi (- 1022) \<le> y"

lemma eps_bounds: "0 < eps" "eps < 1 / 2"
  by (simp_all add: eps_def)

lemma rounds_refl: "0 \<le> x \<Longrightarrow> rounds 0 x x"
  by (simp add: rounds_def)

lemma rounds_nonneg: "rounds k x y \<Longrightarrow> 0 \<le> y"
proof -
  assume "rounds k x y"
  moreover from this have "0 \<le> x * (1 - eps) ^ k"
    using eps_bounds by (intro mult_nonneg_nonneg) (simp_all add: rounds_def)
  ultimately show ?thesis unfolding rounds_def by linarith
qed

lemma rounds_mono:
  assumes "rounds k x y" and "k \<le> n"
  shows "rounds n x y"
proof -
  have "(1 - eps) ^ n \<le> (1 - eps) ^ k" "(1 + eps) ^ k \<le> (1 + eps) ^ n"
    using assms(2) eps_bounds by (simp_all add: power_decreasing power_increasing)
  then show ?thesis
    using assms(1) unfolding rounds_def by (meson mult_left_mono order.trans)
qed

lemma rounds_mult:
  assumes "rounds k x y" and "0 \<le> c"
  shows "rounds k (x * c) (y * c)"
  using assms mult_right_mono [of "x * (1 - eps) ^ k" y c] mult_right_mono [of y "x * (1 + eps) ^ k" c]
  by (simp add: rounds_def mult.assoc mult.commute mult.left_commute)

lemma rounds_add: "rounds k x y \<Longrightarrow> rounds k x' y' \<Longrightarrow> rounds k (x + x') (y + y')"
  by (auto simp: rounds_def distrib_right)

lemma rounds_rnd:
  assumes "rounds k x y" and "normal y"
  shows "rounds (Suc k) x (rnd y)"
proof (cases "y = 0")
  case True
  then show ?thesis using rounds_mono [OF assms(1), of "Suc k"] by (simp add: rnd_def)
next
  case False
  then have "\<bar>rnd y - y\<bar> \<le> y * eps" using assms(2) rnd_error [of y] by (simp add: normal_def eps_def)
  then have "y * (1 - eps) \<le> rnd y" "rnd y \<le> y * (1 + eps)" by (simp_all add: abs_le_iff algebra_simps)
  moreover have "x * (1 - eps) ^ k * (1 - eps) \<le> y * (1 - eps)" "y * (1 + eps) \<le> x * (1 + eps) ^ k * (1 + eps)"
    using assms(1) eps_bounds by (auto simp: rounds_def intro!: mult_right_mono)
  ultimately show ?thesis
    using assms(1) by (simp add: rounds_def mult.assoc mult.commute mult.left_commute)
qed

lemma rounds_error: "rounds 2 x y \<Longrightarrow> \<bar>y - x\<bar> \<le> 3 * eps * x" "rounds 4 x y \<Longrightarrow> \<bar>y - x\<bar> \<le> 5 * eps * x"
proof -
  have *: "\<bar>y - x\<bar> \<le> c * x" if "rounds k x y" "(1 + eps) ^ k \<le> 1 + c" "1 - c \<le> (1 - eps) ^ k" for k c
    using that mult_left_mono [of "(1 + eps) ^ k" "1 + c" x] mult_left_mono [of "1 - c" "(1 - eps) ^ k" x]
    by (simp add: rounds_def abs_le_iff algebra_simps)
  show "rounds 2 x y \<Longrightarrow> \<bar>y - x\<bar> \<le> 3 * eps * x" "rounds 4 x y \<Longrightarrow> \<bar>y - x\<bar> \<le> 5 * eps * x"
    by (erule *; simp add: eps_def power_numeral_reduce)+
qed

text \<open>A magnitude below \<open>2 ^ 1000\<close> does not round to infinity.\<close>

lemma round_double_finite:
  assumes "0 \<le> m" and "normal m" and "m \<le> 2 ^ 1000"
  shows "round_double s m = Fin s (rnd m)"
proof -
  have "rnd m \<le> m * (1 + eps)"
    using rounds_rnd [OF rounds_refl [OF assms(1)] assms(2)] by (simp add: rounds_def)
  also have "\<dots> \<le> 2 ^ 1000 * 2"
    using assms(1,3) eps_bounds by (intro mult_mono) auto
  also have "\<dots> < (2 :: rat) ^ 1024" by simp
  finally show ?thesis by (simp add: round_double_def Let_def)
qed

lemma normal_ge: "1 / 2 ^ 1000 \<le> y \<Longrightarrow> normal y"
proof -
  have "(2 :: rat) powi (- 1022) = 1 / 2 ^ 1022" using two_powi_nat(2) [of 1022] by simp
  also have "\<dots> \<le> 1 / 2 ^ 1000" by simp
  finally show "1 / 2 ^ 1000 \<le> y \<Longrightarrow> normal y" unfolding normal_def by linarith
qed

lemma normal_ge_small: "1 / 2 ^ 100 \<le> y \<Longrightarrow> normal y"
proof -
  have "(1 :: rat) / 2 ^ 1000 \<le> 1 / 2 ^ 100" by simp
  then show "1 / 2 ^ 100 \<le> y \<Longrightarrow> normal y" by (intro normal_ge) linarith
qed

lemma rnd_factor_2:
  assumes "0 \<le> y" and "normal y"
  shows "y / 2 \<le> rnd y" and "rnd y \<le> 2 * y"
proof -
  have "rounds 1 y (rnd y)" using rounds_rnd [OF rounds_refl [OF assms(1)] assms(2)] by simp
  moreover have "y * (1 / 2) \<le> y * (1 - eps)" "y * (1 + eps) \<le> y * 2"
    using assms(1) eps_bounds by (intro mult_left_mono; linarith)+
  ultimately show "y / 2 \<le> rnd y" and "rnd y \<le> 2 * y" by (simp_all add: rounds_def)
qed

text \<open>The operations on non-negative numbers, away from overflow and underflow, round the exact result.\<close>

lemma dmul_nonneg:
  assumes "0 \<le> a * b" and "normal (a * b)" and "a * b \<le> 2 ^ 1000"
  shows "dmul (Fin s a) (Fin t b) = Fin (s \<noteq> t) (rnd (a * b))"
  using assms by (simp add: round_double_finite)

lemma dadd_nonneg:
  assumes "0 \<le> a" and "0 < b" and "normal (a + b)" and "a + b \<le> 2 ^ 1000"
  shows "dadd (Fin False a) (Fin False b) = Fin False (rnd (a + b))"
  using assms by (simp add: rounded_def round_double_finite)

lemma ddiv_nonneg:
  assumes "0 \<le> a" and "0 < b" and "normal (a / b)" and "a / b \<le> 2 ^ 1000"
  shows "ddiv (Fin s a) (Fin t b) = Fin (s \<noteq> t) (rnd (a / b))"
  using assms by (simp add: round_double_finite)

end
