(* ===== verification/Client_Programs.thy ===== *)
theory Client_Programs
  imports Client_Tools Binary64
begin

text \<open>
  The programs under \<open>tools/\<close> around the codec of theory Client_Tools: the loop of
  \<open>tools/dummy_order_generator.py\<close>, which sends orders and cancels, and the loop of
  \<open>tools/orderbook_listener.py\<close>, which rebuilds the books from the datagrams it receives. What the random
  module answers and what arrives from the network are arguments; a loop that runs until it is
  interrupted is run for as many rounds as there are answers.
\<close>

section \<open>Random choices\<close>

text \<open>
  The answers of the random module in one round: whether \<open>random()\<close> was below the cancel probability, the
  numbers \<open>choice\<close> draws, reduced to the length of the sequence, and the values of \<open>uniform\<close> and \<open>randint\<close>.
\<close>

record Round =
  rd_cancel :: bool
  rd_open :: nat
  rd_ticker :: nat
  rd_side :: nat
  rd_uniform :: double
  rd_volume :: int

definition py_choice :: "nat \<Rightarrow> 'a list \<Rightarrow> 'a pyres" where
  "py_choice i xs = (if xs = [] then Inl Index_error else Inr (xs ! (i mod length xs)))"

text \<open>A subscript of a dictionary, and \<open>round\<close> to an integer, which sends halves to the even neighbour.\<close>

definition subscript :: "('k \<times> 'v) list \<Rightarrow> 'k \<Rightarrow> 'v pyres" where
  "subscript d k = (case map_of d k of None \<Rightarrow> Inl Key_error | Some v \<Rightarrow> Inr v)"

fun py_round :: "double \<Rightarrow> int pyres" where
  "py_round (Fin s m) = Inr (half_even (finite_value (Fin s m)))"
| "py_round (Inf s) = Inl Overflow_error"
| "py_round NaN = Inl Value_error"

section \<open>The order generator\<close>

definition USER_ID :: int where
  "USER_ID = 0"

definition SIDE_BUY :: int where
  "SIDE_BUY = 0"

definition SIDE_SELL :: int where
  "SIDE_SELL = 1"

definition wire_PRICE_MULTIPLIER :: int where
  "wire_PRICE_MULTIPLIER = 1000000"

definition wire_INSTRUMENTS :: "string list" where
  "wire_INSTRUMENTS = [''AAPL'', ''GOOG'', ''MSFT'', ''AMZN'']"

definition REFERENCE_PRICES :: "(string \<times> double) list" where
  "REFERENCE_PRICES =
     [(''AAPL'', Fin False 190), (''GOOG'', Fin False 140), (''MSFT'', Fin False 410), (''AMZN'', Fin False 175)]"

definition random_order_add :: "int \<Rightarrow> Round \<Rightarrow> (byte list \<times> string \<times> int \<times> int \<times> int) pyres" where
  "random_order_add order_id rd =
     bind_res (py_choice (rd_ticker rd) wire_INSTRUMENTS) (\<lambda>ticker.
     bind_res (py_choice (rd_side rd) [SIDE_BUY, SIDE_SELL]) (\<lambda>side.
     bind_res (subscript REFERENCE_PRICES ticker) (\<lambda>reference.
     bind_res (py_round (dmul (dadd reference (rd_uniform rd)) (rounded (of_int wire_PRICE_MULTIPLIER)))) (\<lambda>price.
     let volume = rd_volume rd
     in bind_res (encode_order_add order_id USER_ID ticker side price volume) (\<lambda>message.
        Inr (message, ticker, side, price, volume))))))"

record Generator =
  gn_open_orders :: "(int \<times> string) list"
  gn_next_order_id :: int

definition new_Generator :: Generator where
  "new_Generator = \<lparr>gn_open_orders = [], gn_next_order_id = 1\<rparr>"

text \<open>One round of the loop: the message it sends and the state it leaves.\<close>

definition generator_round :: "Round \<Rightarrow> Generator \<Rightarrow> (byte list \<times> Generator) pyres" where
  "generator_round rd g =
     (if gn_open_orders g \<noteq> [] \<and> rd_cancel rd then
        bind_res (py_choice (rd_open rd) (map fst (gn_open_orders g))) (\<lambda>order_id.
        bind_res (subscript (gn_open_orders g) order_id) (\<lambda>ticker.
        let g = g\<lparr>gn_open_orders := AList.delete order_id (gn_open_orders g)\<rparr>
        in bind_res (encode_order_cancel order_id USER_ID ticker) (\<lambda>message.
           Inr (message, g))))
      else
        bind_res (random_order_add (gn_next_order_id g) rd) (\<lambda>(message, ticker, side, price, volume).
        let g = g\<lparr>gn_open_orders := AList.update (gn_next_order_id g) ticker (gn_open_orders g)\<rparr>;
            g = g\<lparr>gn_next_order_id := gn_next_order_id g + 1\<rparr>
        in Inr (message, g)))"

fun generator_main :: "Round list \<Rightarrow> Generator \<Rightarrow> byte list list pyres" where
  "generator_main [] g = Inr []"
| "generator_main (rd # rds) g =
     bind_res (generator_round rd g) (\<lambda>(message, g).
     bind_res (generator_main rds g) (\<lambda>messages. Inr (message # messages)))"

section \<open>The listener\<close>

text \<open>\<open>except ValueError\<close> also catches the Unicode errors, which are its subclasses.\<close>

fun is_value_error :: "pyexn \<Rightarrow> bool" where
  "is_value_error Value_error = True"
| "is_value_error Unicode_encode_error = True"
| "is_value_error Unicode_decode_error = True"
| "is_value_error _ = False"

text \<open>One round: a datagram, or \<open>None\<close> after the timeout.\<close>

definition listener_round :: "byte list option \<Rightarrow> OrderBook \<Rightarrow> OrderBook pyres" where
  "listener_round received book =
     (case received of
        None \<Rightarrow> Inr book
      | Some datagram \<Rightarrow>
          (case decode_market_data datagram of
             Inl e \<Rightarrow> if is_value_error e then Inr book else Inl e
           | Inr event \<Rightarrow> Inr (apply_event event book)))"

fun listener_main :: "byte list option list \<Rightarrow> OrderBook \<Rightarrow> OrderBook pyres" where
  "listener_main [] book = Inr book"
| "listener_main (r # rs) book = bind_res (listener_round r book) (listener_main rs)"

end
