(* ===== verification/User.thy ===== *)
theory User
  imports Core_Types Binary64
begin

text \<open>
  Money and accounts: the conversions of \<open>common/core/types.hpp\<close> and \<open>User\<close> of \<open>common/engine/user.hpp\<close>.
  The operations take the arithmetic as an argument. \<open>binary64\<close> is the program's; \<open>exact\<close> computes
  without rounding and says what the average-cost method means.
\<close>

section \<open>Arithmetic\<close>

record 'd arith =
  ar_add :: "'d \<Rightarrow> 'd \<Rightarrow> 'd"
  ar_sub :: "'d \<Rightarrow> 'd \<Rightarrow> 'd"
  ar_mul :: "'d \<Rightarrow> 'd \<Rightarrow> 'd"
  ar_div :: "'d \<Rightarrow> 'd \<Rightarrow> 'd"
  ar_of_i64 :: "int64 \<Rightarrow> 'd"

definition binary64 :: "double arith" where
  "binary64 = \<lparr>ar_add = dadd, ar_sub = dsub, ar_mul = dmul, ar_div = ddiv, ar_of_i64 = double_of_i64\<rparr>"

definition exact :: "rat arith" where
  "exact = \<lparr>ar_add = (+), ar_sub = (-), ar_mul = (*), ar_div = (/), ar_of_i64 = (\<lambda>k. of_int (ival k))\<rparr>"

type_synonym 'd USD = "('d, UsdTag) StrongType"

definition ToUsd :: "'d arith \<Rightarrow> Price \<Rightarrow> 'd USD" where
  "ToUsd A price = StrongType (ar_div A (ar_of_i64 A (raw price)) (ar_of_i64 A (i64 PRICE_MULTIPLIER)))"

definition ToPrice :: "double USD \<Rightarrow> Price option" where
  "ToPrice usd = map_option StrongType (llround (dmul (raw usd) (double_of_i64 (i64 PRICE_MULTIPLIER))))"

definition i64_abs :: "int64 \<Rightarrow> int64" where
  "i64_abs k = (if k < 0 then - k else k)"

section \<open>Holdings and users\<close>

record 'd Holding =
  h_volume :: Volume
  h_avgCost :: "'d USD"
  h_realizedPnl :: "'d USD"
  h_unrealizedPnl :: "'d USD"

definition new_Holding :: "'d arith \<Rightarrow> 'd Holding" where
  "new_Holding A =
     \<lparr>h_volume = 0, h_avgCost = StrongType (ar_of_i64 A 0), h_realizedPnl = StrongType (ar_of_i64 A 0),
      h_unrealizedPnl = StrongType (ar_of_i64 A 0)\<rparr>"

record 'd User =
  u_id :: UserId
  u_inventory :: "Ticker \<rightharpoonup> 'd Holding"

definition new_User :: "UserId \<Rightarrow> 'd User" where
  "new_User i = \<lparr>u_id = i, u_inventory = Map.empty\<rparr>"

definition User_Id :: "'d User \<Rightarrow> UserId" where
  [simp]: "User_Id u = u_id u"

definition Inventory :: "'d User \<Rightarrow> (Ticker \<rightharpoonup> 'd Holding)" where
  [simp]: "Inventory u = u_inventory u"

definition Position :: "'d User \<Rightarrow> Ticker \<Rightarrow> Volume" where
  "Position u ticker = (case u_inventory u ticker of None \<Rightarrow> 0 | Some h \<Rightarrow> h_volume h)"

definition RealizedPnl :: "'d arith \<Rightarrow> 'd User \<Rightarrow> Ticker \<Rightarrow> 'd USD" where
  "RealizedPnl A u ticker = (case u_inventory u ticker of None \<Rightarrow> StrongType (ar_of_i64 A 0) | Some h \<Rightarrow> h_realizedPnl h)"

definition UnrealizedPnl :: "'d arith \<Rightarrow> 'd User \<Rightarrow> Ticker \<Rightarrow> 'd USD" where
  "UnrealizedPnl A u ticker = (case u_inventory u ticker of None \<Rightarrow> StrongType (ar_of_i64 A 0) | Some h \<Rightarrow> h_unrealizedPnl h)"

text \<open>The body of \<open>ApplyFill\<close> on the holding, which the map's \<open>operator[]\<close> creates when the ticker is new.\<close>

definition fill_holding :: "'d arith \<Rightarrow> Side \<Rightarrow> Price \<Rightarrow> Volume \<Rightarrow> 'd Holding \<Rightarrow> 'd Holding" where
  "fill_holding A side execPrice tradeVolume holding =
     (let signedDelta = (if side = Buy then raw tradeVolume else - raw tradeVolume);
          oldVolume = raw (h_volume holding);
          avgCost = raw (h_avgCost holding);
          execUsd = raw (ToUsd A execPrice);
          sameDirection = (oldVolume = 0 \<or> (0 < oldVolume) = (0 < signedDelta));
          holding =
            (if sameDirection then
               let oldAbs = ar_of_i64 A (i64_abs oldVolume);
                   addAbs = ar_of_i64 A (i64_abs signedDelta)
               in holding\<lparr>h_avgCost := StrongType
                    (ar_div A (ar_add A (ar_mul A avgCost oldAbs) (ar_mul A execUsd addAbs)) (ar_add A oldAbs addAbs))\<rparr>
             else
               let closedAmount = min (i64_abs oldVolume) (i64_abs signedDelta);
                   pnlPerUnit = (if 0 < oldVolume then ar_sub A execUsd avgCost else ar_sub A avgCost execUsd)
               in holding\<lparr>h_realizedPnl := StrongType
                    (ar_add A (raw (h_realizedPnl holding)) (ar_mul A pnlPerUnit (ar_of_i64 A closedAmount)))\<rparr>);
          newVolume = oldVolume + signedDelta;
          flippedSign = (0 < oldVolume \<and> newVolume < 0 \<or> oldVolume < 0 \<and> 0 < newVolume);
          holding =
            (if \<not> sameDirection \<and> flippedSign then holding\<lparr>h_avgCost := StrongType execUsd\<rparr>
             else if newVolume = 0 then holding\<lparr>h_avgCost := StrongType (ar_of_i64 A 0)\<rparr>
             else holding)
      in holding\<lparr>h_volume := StrongType newVolume\<rparr>)"

definition ApplyFill :: "'d arith \<Rightarrow> Ticker \<Rightarrow> Side \<Rightarrow> Price \<Rightarrow> Volume \<Rightarrow> 'd User \<Rightarrow> 'd User" where
  "ApplyFill A ticker side execPrice tradeVolume u =
     (let holding = case_option (new_Holding A) id (u_inventory u ticker)
      in u\<lparr>u_inventory := (u_inventory u)(ticker \<mapsto> fill_holding A side execPrice tradeVolume holding)\<rparr>)"

definition RefreshUnrealizedPnl :: "'d arith \<Rightarrow> Ticker \<Rightarrow> Price \<Rightarrow> 'd User \<Rightarrow> 'd User" where
  "RefreshUnrealizedPnl A ticker midPrice u =
     (case u_inventory u ticker of
        None \<Rightarrow> u
      | Some holding \<Rightarrow>
          let mid = raw (ToUsd A midPrice);
              holding = holding\<lparr>h_unrealizedPnl := StrongType
                (ar_mul A (ar_of_i64 A (raw (h_volume holding))) (ar_sub A mid (raw (h_avgCost holding))))\<rparr>
          in u\<lparr>u_inventory := (u_inventory u)(ticker \<mapsto> holding)\<rparr>)"

section \<open>Positions\<close>

definition signed_volume :: "Side \<Rightarrow> Volume \<Rightarrow> Volume" where
  "signed_volume side v = (if side = Buy then v else - v)"

lemma h_volume_fill_holding: "h_volume (fill_holding A side p v h) = h_volume h + signed_volume side v"
  by (cases "h_volume h"; cases v) (simp add: fill_holding_def Let_def signed_volume_def)

lemma Position_ApplyFill:
  "Position (ApplyFill A t side p v u) t' = (if t' = t then Position u t + signed_volume side v else Position u t')"
  by (simp add: Position_def ApplyFill_def Let_def h_volume_fill_holding new_Holding_def split: option.splits)

lemma Position_RefreshUnrealizedPnl [simp]: "Position (RefreshUnrealizedPnl A t p u) t' = Position u t'"
  by (simp add: Position_def RefreshUnrealizedPnl_def Let_def split: option.splits)

lemma Position_new_User [simp]: "Position (new_User i) t = 0"
  by (simp add: Position_def new_User_def)

section \<open>The average-cost method\<close>

text \<open>
  \<open>cash\<close> is the money the fills of a holding have cost or earned so far: realized profit less the
  cost basis of the open position. A fill changes it by exactly its own price times volume.
\<close>

definition usd :: "Price \<Rightarrow> rat" where
  "usd p = of_int (num p) / of_int PRICE_MULTIPLIER"

definition position_of :: "'d Holding \<Rightarrow> int" where
  "position_of h = num (h_volume h)"

definition cash :: "rat Holding \<Rightarrow> rat" where
  "cash h = raw (h_realizedPnl h) - raw (h_avgCost h) * of_int (position_of h)"

definition in_range :: "int \<Rightarrow> bool" where
  "in_range k \<longleftrightarrow> - (2 ^ 63) < k \<and> k < 2 ^ 63"

lemma exact_simps [simp]:
  "ar_add exact = (+)" "ar_sub exact = (-)" "ar_mul exact = (*)" "ar_div exact = (/)"
  "ar_of_i64 exact k = of_int (ival k)"
  by (simp_all add: exact_def)

lemma raw_ToUsd_exact: "raw (ToUsd exact p) = usd p"
  by (simp add: ToUsd_def usd_def num_def PRICE_MULTIPLIER_def in_i64_def)

lemma ival_i64_abs: "in_range (ival k) \<Longrightarrow> ival (i64_abs k) = \<bar>ival k\<bar>"
  by (auto simp: i64_abs_def in_range_def in_i64_def abs_if)

lemma num_signed_volume: "0 < v \<Longrightarrow> num (signed_volume side v) = (if side = Buy then num v else - num v)"
  using num_range [of v] num_sign(2) [of v] by (auto simp: signed_volume_def num_def in_i64_def simp del: num_sign ival_less_0)

text \<open>The method on plain numbers: position, average cost and realized profit before and after a fill.\<close>

definition exact_fill :: "int \<Rightarrow> rat \<Rightarrow> int \<Rightarrow> rat \<Rightarrow> rat \<Rightarrow> rat \<times> rat" where
  "exact_fill d P o1 avg realized =
     (let same = (o1 = 0 \<or> (0 < o1) = (0 < d));
          avg' = (if same then (avg * of_int \<bar>o1\<bar> + P * of_int \<bar>d\<bar>) / (of_int \<bar>o1\<bar> + of_int \<bar>d\<bar>) else avg);
          realized' = (if same then realized
            else realized + (if 0 < o1 then P - avg else avg - P) * of_int (min \<bar>o1\<bar> \<bar>d\<bar>))
      in (if \<not> same \<and> (0 < o1 \<and> o1 + d < 0 \<or> o1 < 0 \<and> 0 < o1 + d) then P
          else if o1 + d = 0 then 0 else avg', realized'))"

lemma fill_holding_exact:
  assumes "0 < v" and "in_range (position_of h)" and "in_range (position_of h + num (signed_volume side v))"
  shows "position_of (fill_holding exact side p v h) = position_of h + num (signed_volume side v)"
    and "(raw (h_avgCost (fill_holding exact side p v h)), raw (h_realizedPnl (fill_holding exact side p v h))) =
      exact_fill (num (signed_volume side v)) (usd p) (position_of h) (raw (h_avgCost h)) (raw (h_realizedPnl h))"
proof -
  define x where "x = raw (h_volume h)"
  define y where "y = raw (signed_volume side v)"
  have y: "(if side = Buy then raw v else - raw v) = y"
    by (simp add: y_def signed_volume_def)
  have ix: "position_of h = ival x" and iy: "num (signed_volume side v) = ival y"
    by (simp_all add: position_of_def num_def x_def y_def)
  have "in_range (ival y)"
    using num_signed_volume [OF assms(1), of side] num_range [of v] assms(1) num_sign(2) [of v] iy
    by (auto simp: in_range_def simp del: num_sign split: if_splits)
  then have abs: "ival (i64_abs x) = \<bar>ival x\<bar>" "ival (i64_abs y) = \<bar>ival y\<bar>"
    using assms(2) ix by (simp_all add: ival_i64_abs)
  have sum: "ival (x + y) = ival x + ival y"
    using assms(3) ix iy by (intro ival_add_id) (auto simp: in_range_def in_i64_def)
  then have signs: "x + y = 0 \<longleftrightarrow> ival x + ival y = 0" "x + y < 0 \<longleftrightarrow> ival x + ival y < 0" "0 < x + y \<longleftrightarrow> 0 < ival x + ival y"
    by (metis ival_eq_0_iff, metis ival_less_0(1), metis ival_less_0(2))
  have compares: "x = 0 \<longleftrightarrow> ival x = 0" "0 < x \<longleftrightarrow> 0 < ival x" "x < 0 \<longleftrightarrow> ival x < 0" "0 < y \<longleftrightarrow> 0 < ival y"
    by simp_all
  show "position_of (fill_holding exact side p v h) = position_of h + num (signed_volume side v)"
    using sum ix iy by (simp add: position_of_def h_volume_fill_holding num_def x_def y_def)
  show "(raw (h_avgCost (fill_holding exact side p v h)), raw (h_realizedPnl (fill_holding exact side p v h))) =
      exact_fill (num (signed_volume side v)) (usd p) (position_of h) (raw (h_avgCost h)) (raw (h_realizedPnl h))"
    unfolding fill_holding_def y x_def [symmetric] ix iy exact_fill_def Let_def signs compares
    by (simp add: raw_ToUsd_exact abs ival_min del: ival_eq_0_iff ival_less_0)
qed

lemma exact_fill_cash:
  assumes "d \<noteq> 0" and "exact_fill d P o1 avg realized = (avg', realized')"
  shows "realized' - avg' * of_int (o1 + d) = realized - avg * of_int o1 - P * of_int d"
proof -
  consider "o1 = 0 \<or> (0 < o1) = (0 < d)" | "0 < o1" "d < 0" | "o1 < 0" "0 < d"
    using assms(1) by linarith
  then show ?thesis
  proof cases
    case 1
    then have ne: "(of_int \<bar>o1\<bar> + of_int \<bar>d\<bar> :: rat) \<noteq> 0" and "o1 + d \<noteq> 0"
      using assms(1) by auto
    then have avg: "avg' = (avg * of_int \<bar>o1\<bar> + P * of_int \<bar>d\<bar>) / (of_int \<bar>o1\<bar> + of_int \<bar>d\<bar>)" and "realized' = realized"
      using 1 assms(2) by (simp_all add: exact_fill_def)
    have "avg' * (of_int \<bar>o1\<bar> + of_int \<bar>d\<bar>) = avg * of_int \<bar>o1\<bar> + P * of_int \<bar>d\<bar>"
      using ne avg by simp
    moreover have "(0 \<le> o1 \<and> 0 < d) \<or> (o1 \<le> 0 \<and> d < 0)" using 1 assms(1) by linarith
    ultimately show ?thesis using \<open>realized' = realized\<close> by (auto simp: algebra_simps)
  next
    case 2
    then show ?thesis
      using assms(2) by (cases "o1 = - d") (auto simp: exact_fill_def min_def algebra_simps split: if_splits)
  next
    case 3
    then show ?thesis
      using assms(2) by (cases "o1 = - d") (auto simp: exact_fill_def min_def algebra_simps split: if_splits)
  qed
qed

lemma fill_holding_cash:
  assumes "0 < v" and "in_range (position_of h)" and "in_range (position_of h + num (signed_volume side v))"
  shows "cash (fill_holding exact side p v h) = cash h - usd p * of_int (num (signed_volume side v))"
proof -
  have "num (signed_volume side v) \<noteq> 0"
    using num_signed_volume [OF assms(1), of side] assms(1) by auto
  then show ?thesis
    using exact_fill_cash [OF _ fill_holding_exact(2) [OF assms, of p, symmetric]] fill_holding_exact(1) [OF assms]
    by (simp add: cash_def)
qed

end
