(* ===== verification/User_Properties.thy ===== *)
theory User_Properties
  imports User
begin

text \<open>
  What the accounts promise. The average-cost bookkeeping is exact in exact arithmetic: realized plus
  unrealized profit is what the fills earned. In the program's \<open>double\<close> arithmetic each operation rounds
  once; the conversions between prices and dollars are nevertheless exact inverses over the
  realistic range, and the rolled-forward average cost has four rounding errors.
\<close>

section \<open>Sequences of fills\<close>

type_synonym Fill = "Side \<times> Price \<times> Volume"

definition apply_fills :: "'d arith \<Rightarrow> Ticker \<Rightarrow> Fill list \<Rightarrow> 'd User \<Rightarrow> 'd User" where
  "apply_fills A t fs u = fold (\<lambda>(side, p, v). ApplyFill A t side p v) fs u"

definition fill_volume :: "Fill \<Rightarrow> int" where
  "fill_volume f = (case f of (side, p, v) \<Rightarrow> if side = Buy then num v else - num v)"

definition net :: "Fill list \<Rightarrow> int" where
  "net fs = (\<Sum>f\<leftarrow>fs. fill_volume f)"

text \<open>Volumes are positive and the position stays within 64 bits.\<close>

fun fills_ok :: "int \<Rightarrow> Fill list \<Rightarrow> bool" where
  "fills_ok k [] = True"
| "fills_ok k ((side, p, v) # fs) =
     (0 < v \<and> in_range (k + fill_volume (side, p, v)) \<and> fills_ok (k + fill_volume (side, p, v)) fs)"

definition holding_of :: "'d arith \<Rightarrow> 'd User \<Rightarrow> Ticker \<Rightarrow> 'd Holding" where
  "holding_of A u t = case_option (new_Holding A) id (u_inventory u t)"

lemma holding_of_ApplyFill:
  "holding_of A (ApplyFill A t side p v u) t' =
     (if t' = t then fill_holding A side p v (holding_of A u t) else holding_of A u t')"
  by (simp add: holding_of_def ApplyFill_def)

lemma holding_of_new_User [simp]: "holding_of A (new_User i) t = new_Holding A"
  by (simp add: holding_of_def new_User_def)

lemma new_Holding_exact [simp]: "cash (new_Holding exact) = 0" "position_of (new_Holding A) = 0"
  by (simp_all add: cash_def new_Holding_def position_of_def)

lemma apply_fills_cash:
  assumes "fills_ok (position_of (holding_of exact u t)) fs" and "in_range (position_of (holding_of exact u t))"
  shows "cash (holding_of exact (apply_fills exact t fs u) t) =
      cash (holding_of exact u t) - (\<Sum>f\<leftarrow>fs. usd (fst (snd f)) * of_int (fill_volume f)) \<and>
    position_of (holding_of exact (apply_fills exact t fs u) t) = position_of (holding_of exact u t) + net fs"
  using assms
proof (induction fs arbitrary: u)
  case Nil
  then show ?case by (simp add: apply_fills_def net_def)
next
  case (Cons f fs)
  obtain side p v where f: "f = (side, p, v)" by (cases f)
  let ?u = "ApplyFill exact t side p v u" and ?h = "holding_of exact u t"
  have v: "0 < v" using Cons.prems(1) by (simp add: f)
  then have fv: "fill_volume f = num (signed_volume side v)"
    using num_signed_volume [OF v, of side] by (simp add: f fill_volume_def)
  then have ok: "in_range (position_of ?h + num (signed_volume side v))"
    using Cons.prems(1) by (simp add: f)
  note h = fill_holding_cash [OF v Cons.prems(2) ok, of p] fill_holding_exact(1) [OF v Cons.prems(2) ok, of p]
  have run: "apply_fills exact t (f # fs) u = apply_fills exact t fs ?u"
    by (simp add: apply_fills_def f)
  show ?case
    using Cons.IH [of ?u] Cons.prems fv h ok by (simp add: run [unfolded f] holding_of_ApplyFill f net_def)
qed

lemma RealizedPnl_holding: "RealizedPnl A u t = h_realizedPnl (holding_of A u t)"
  by (simp add: RealizedPnl_def holding_of_def new_Holding_def split: option.splits)

lemma Position_holding: "Position u t = h_volume (holding_of A u t)"
  by (simp add: Position_def holding_of_def new_Holding_def split: option.splits)

lemma RefreshUnrealizedPnl_exact:
  "raw (RealizedPnl exact (RefreshUnrealizedPnl exact t mark u) t) +
     raw (UnrealizedPnl exact (RefreshUnrealizedPnl exact t mark u) t) =
   cash (holding_of exact u t) + usd mark * of_int (position_of (holding_of exact u t))"
  by (cases "u_inventory u t")
    (simp_all add: RefreshUnrealizedPnl_def RealizedPnl_def UnrealizedPnl_def holding_of_def cash_def position_of_def
      num_def raw_ToUsd_exact new_Holding_def algebra_simps)

section \<open>Rounding\<close>

lemma binary64_simps [simp]:
  "ar_add binary64 = dadd" "ar_sub binary64 = dsub" "ar_mul binary64 = dmul" "ar_div binary64 = ddiv"
  "ar_of_i64 binary64 = double_of_i64"
  by (simp_all add: binary64_def)

lemma double_of_multiplier: "double_of_i64 (i64 PRICE_MULTIPLIER) = Fin False 1000000"
  using rounded_int [of 1000000] by (simp add: double_of_i64_def PRICE_MULTIPLIER_def in_i64_def)

lemma double_of_small: "\<bar>ival k\<bar> < 2 ^ 53 \<Longrightarrow> double_of_i64 k = Fin (ival k < 0) \<bar>of_int (ival k)\<bar>"
  unfolding double_of_i64_def by (rule rounded_int)

lemma usd_normal:
  assumes "num p \<noteq> 0" and "\<bar>num p\<bar> \<le> 2 ^ 50"
  shows "1 / 1000000 \<le> \<bar>usd p\<bar>" and "\<bar>usd p\<bar> \<le> 2 ^ 50" and "normal \<bar>usd p\<bar>"
proof -
  have "1 \<le> \<bar>num p\<bar>" using assms(1) by linarith
  then have "1 \<le> \<bar>of_int (num p) :: rat\<bar>" "\<bar>of_int (num p) :: rat\<bar> \<le> 2 ^ 50"
    using assms(2) by (simp_all flip: of_int_abs)
  then show "1 / 1000000 \<le> \<bar>usd p\<bar>" and "\<bar>usd p\<bar> \<le> 2 ^ 50"
    by (simp_all add: usd_def PRICE_MULTIPLIER_def)
  have "(1 :: rat) / 2 ^ 1000 \<le> 1 / 1000000" by simp
  then show "normal \<bar>usd p\<bar>" using \<open>1 / 1000000 \<le> \<bar>usd p\<bar>\<close> by (intro normal_ge) linarith
qed

lemma ToUsd_binary64:
  assumes "\<bar>num p\<bar> \<le> 2 ^ 50"
  shows "raw (ToUsd binary64 p) = Fin (num p < 0) (rnd \<bar>usd p\<bar>)"
proof -
  have d: "double_of_i64 (raw p) = Fin (num p < 0) \<bar>of_int (num p)\<bar>"
    using double_of_small [of "raw p"] assms by (simp add: num_def)
  have u: "\<bar>of_int (num p) :: rat\<bar> / 1000000 = \<bar>usd p\<bar>" by (simp add: usd_def PRICE_MULTIPLIER_def)
  have "\<bar>usd p\<bar> \<le> 2 ^ 1000" and n: "normal \<bar>usd p\<bar>"
    using usd_normal [OF _ assms] by (cases "num p = 0"; force simp: usd_def normal_def)+
  then show ?thesis
    using ddiv_nonneg [of "\<bar>of_int (num p)\<bar>" 1000000 "num p < 0" False] u
    by (simp add: ToUsd_def d double_of_multiplier del: num_sign)
qed

lemma half_away_near:
  assumes "\<bar>z - of_int \<bar>k\<bar>\<bar> < 1 / 2"
  shows "half_away (if k < 0 then - z else z) = k"
proof -
  have fl: "\<lfloor>z + 1 / 2\<rfloor> = \<bar>k\<bar>" "k = 0 \<Longrightarrow> \<lfloor>- z + 1 / 2\<rfloor> = 0"
    using assms by (intro floor_unique; simp; linarith)+
  have "0 < z" if "k \<noteq> 0"
  proof -
    have "(1 :: rat) \<le> of_int \<bar>k\<bar>" using that by simp
    then show ?thesis using assms by linarith
  qed
  then show ?thesis
    using fl unfolding half_away_def by (cases "k = 0"; cases "k < 0") (simp_all only: if_True if_False; simp)+
qed

text \<open>The average-cost expression of \<open>ApplyFill\<close>: the roundings of both products, the sum and the quotient.\<close>

definition roll_forward :: "rat \<Rightarrow> rat \<Rightarrow> rat \<Rightarrow> rat \<Rightarrow> rat" where
  "roll_forward a k u d = rnd (rnd (rnd (a * k) + rnd (rnd u * d)) / (k + d))"

definition avg_ok :: "rat \<Rightarrow> bool" where
  "avg_ok a \<longleftrightarrow> a = 0 \<or> 1 / 2 ^ 500 \<le> a \<and> a \<le> 2 ^ 500"

lemma roll_forward_bounds:
  assumes "avg_ok a" and "k = 0 \<or> 1 \<le> k" and "1 \<le> d" and "k + d < 2 ^ 53" and "1 / 1000000 \<le> u" and "u \<le> 2 ^ 50"
    and "A = rnd (a * k)" and "B = rnd (rnd u * d)" and "C = rnd (A + B)"
  shows "normal (a * k)" "0 \<le> a * k" "a * k \<le> 2 ^ 553"
    and "normal u" "normal (rnd u * d)" "1 / 2000000 \<le> rnd u * d" "rnd u * d \<le> 2 ^ 104"
    and "normal (A + B)" "0 \<le> A" "1 / 4000000 \<le> B" "A + B \<le> 2 ^ 555"
    and "normal (C / (k + d))" "0 < C" "C / (k + d) \<le> 2 ^ 556"
proof -
  have tiny: "1 / 2 ^ 100 \<le> (1 / 8000000 / 2 ^ 53 :: rat)" by simp
  have tiny: "1 / 2 ^ 100 \<le> y" if "1 / 8000000 / 2 ^ 53 \<le> y" for y :: rat using tiny that by linarith
  have kd: "0 \<le> k" "k \<le> 2 ^ 53" "d \<le> 2 ^ 53" "0 < d" "1 \<le> k + d" using assms(2-4) by auto
  have a: "0 \<le> a" "a \<le> 2 ^ 500"
    using assms(1) by (auto simp: avg_ok_def intro: order.trans [of 0 "1 / 2 ^ 500"])
  show ak: "0 \<le> a * k" using a kd by simp
  have "a * k \<le> 2 ^ 500 * 2 ^ 53" using a kd by (intro mult_mono) simp_all
  also have "(2 :: rat) ^ 500 * 2 ^ 53 = 2 ^ 553" by (simp flip: power_add)
  finally show ak': "a * k \<le> 2 ^ 553" .
  have "1 / 2 ^ 1000 \<le> a * k" if "a \<noteq> 0" "k \<noteq> 0"
  proof -
    have "(1 / 2 ^ 500) * 1 \<le> a * k" using that assms(1,2) by (intro mult_mono) (auto simp: avg_ok_def)
    moreover have "(1 :: rat) / 2 ^ 1000 \<le> 1 / 2 ^ 500" by simp
    ultimately show ?thesis by linarith
  qed
  then show nak: "normal (a * k)" by (cases "a * k = 0") (auto simp: normal_def intro: normal_ge [unfolded normal_def])
  show nu: "normal u" using assms(5) by (intro normal_ge_small tiny) simp
  have u: "1 / 2000000 \<le> rnd u" "rnd u \<le> 2 ^ 51" using rnd_factor_2 [OF _ nu] assms(5,6) by auto
  have "1 / 2000000 * 1 \<le> rnd u * d" using u kd assms(3) by (intro mult_mono) auto
  then show ud: "1 / 2000000 \<le> rnd u * d" by simp
  have "rnd u * d \<le> 2 ^ 51 * 2 ^ 53" using u kd by (intro mult_mono) auto
  then show ud': "rnd u * d \<le> 2 ^ 104" by simp
  show nud: "normal (rnd u * d)" using ud by (intro normal_ge_small tiny) simp
  have A: "0 \<le> A" "A \<le> 2 * 2 ^ 553" using rnd_factor_2 [OF ak nak] ak ak' assms(7) by auto
  have B: "1 / 4000000 \<le> B" "B \<le> 2 * 2 ^ 104" using rnd_factor_2 [OF _ nud] ud ud' assms(8) by auto
  show "0 \<le> A" "1 / 4000000 \<le> B" by (fact A(1), fact B(1))
  show AB: "A + B \<le> 2 ^ 555" using A(2) B(2) by simp
  have AB': "1 / 4000000 \<le> A + B" using A B by linarith
  then show nAB: "normal (A + B)" by (intro normal_ge_small tiny) simp
  have C: "1 / 8000000 \<le> C" "C \<le> 2 * 2 ^ 555" using rnd_factor_2 [OF _ nAB] AB AB' assms(9) by auto
  then show "0 < C" by linarith
  have "C / (k + d) \<le> C / 1" using C kd by (intro divide_left_mono) auto
  then show "C / (k + d) \<le> 2 ^ 556" using C(2) by simp
  have "(1 / 8000000) / 2 ^ 53 \<le> C / (k + d)" using C assms(4) kd by (intro frac_le) auto
  then show "normal (C / (k + d))" by (intro normal_ge_small tiny) simp
qed

lemma roll_forward_error:
  assumes "avg_ok a" and "k = 0 \<or> 1 \<le> k" and "1 \<le> d" and "k + d < 2 ^ 53" and "1 / 1000000 \<le> u" and "u \<le> 2 ^ 50"
  shows "\<bar>roll_forward a k u d - (a * k + u * d) / (k + d)\<bar> \<le> 5 * eps * ((a * k + u * d) / (k + d))"
proof -
  note b = roll_forward_bounds [OF assms refl refl refl]
  have "0 \<le> u" "0 \<le> d" and kd: "0 < k + d" using assms(2,3,5) by auto
  have "rounds 2 (a * k) (rnd (a * k))"
    using rounds_mono [OF rounds_rnd [OF rounds_refl [OF b(2)] b(1)], of 2] by simp
  moreover have "rounds (Suc 1) (u * d) (rnd (rnd u * d))"
    using rounds_rnd [OF rounds_mult [OF rounds_rnd [OF rounds_refl [OF \<open>0 \<le> u\<close>] b(4)] \<open>0 \<le> d\<close>] b(5)] by simp
  ultimately have "rounds 2 (a * k + u * d) (rnd (a * k) + rnd (rnd u * d))"
    by (simp add: rounds_add numeral_2_eq_2)
  from rounds_mult [OF rounds_rnd [OF this b(8)], of "1 / (k + d)"]
  have "rounds 3 ((a * k + u * d) / (k + d)) (rnd (rnd (a * k) + rnd (rnd u * d)) / (k + d))"
    using kd by (simp add: numeral_3_eq_3 numeral_2_eq_2)
  from rounds_error(2) [unfolded numeral_nat, simplified, OF rounds_rnd [OF this b(12), unfolded numeral_nat, simplified]]
  show ?thesis by (simp add: roll_forward_def)
qed

lemma double_roll_forward:
  assumes "avg_ok a" and "0 \<le> k" and "1 \<le> d" and "k + d < 2 ^ 53" and "0 < num p" and "num p \<le> 2 ^ 50"
  shows "ddiv (dadd (dmul (Fin False a) (Fin False (of_int k))) (dmul (raw (ToUsd binary64 p)) (Fin False (of_int d))))
      (dadd (Fin False (of_int k)) (Fin False (of_int d))) =
    Fin False (roll_forward a (of_int k) (usd p) (of_int d))"
proof -
  let ?k = "of_int k :: rat" and ?d = "of_int d :: rat"
  have u: "1 / 1000000 \<le> usd p" "usd p \<le> 2 ^ 50" "\<bar>usd p\<bar> = usd p"
    using usd_normal [of p] assms(5,6) by (auto simp: usd_def PRICE_MULTIPLIER_def simp del: num_sign)
  have kd: "?k = 0 \<or> 1 \<le> ?k" "1 \<le> ?d" "?k + ?d < 2 ^ 53"
    using assms(2-4) of_int_less_iff [of "k + d" "2 ^ 53", where 'a = rat] by auto
  then have pos: "0 < ?k + ?d" by linarith
  have raise: "x \<le> 2 ^ 1000" if "x \<le> 2 ^ n" "n \<le> 1000" for x :: rat and n
    using that power_increasing [of n 1000 "2 :: rat"] by linarith
  note b = roll_forward_bounds [OF assms(1) kd u(1,2) refl refl refl]
  have "raw (ToUsd binary64 p) = Fin False (rnd (usd p))"
    using ToUsd_binary64 [of p] assms(5,6) u(3) by (simp del: num_sign)
  moreover have "dmul (Fin False a) (Fin False ?k) = Fin False (rnd (a * ?k))"
    using dmul_nonneg [OF b(2,1) raise [OF b(3)], of False False] by simp
  moreover have "dmul (Fin False (rnd (usd p))) (Fin False ?d) = Fin False (rnd (rnd (usd p) * ?d))"
    using dmul_nonneg [OF _ b(5) raise [OF b(7)], of False False] b(6) by simp
  moreover have "dadd (Fin False (rnd (a * ?k))) (Fin False (rnd (rnd (usd p) * ?d))) =
      Fin False (rnd (rnd (a * ?k) + rnd (rnd (usd p) * ?d)))"
    using dadd_nonneg [OF b(9) _ b(8) raise [OF b(11)]] b(10) by simp
  moreover have "dadd (Fin False ?k) (Fin False ?d) = Fin False (?k + ?d)"
    using rounded_int [of "k + d"] assms(2-4) by (simp add: Let_def)
  moreover have "ddiv (Fin False (rnd (rnd (a * ?k) + rnd (rnd (usd p) * ?d)))) (Fin False (?k + ?d)) =
      Fin False (roll_forward a ?k (usd p) ?d)"
    using ddiv_nonneg [OF less_imp_le [OF b(13)] _ b(12) raise [OF b(14)], of False False] pos
    by (simp add: roll_forward_def del: ddiv.simps)
  ultimately show ?thesis by (simp only:)
qed

lemma fill_holding_roll_forward:
  assumes "side = Buy \<and> 0 \<le> position_of h \<or> side = Sell \<and> position_of h \<le> 0" and "0 < v"
    and "\<bar>position_of h\<bar> + num v < 2 ^ 53" and "h_avgCost h = StrongType (Fin False a)" and "avg_ok a"
    and "0 < num p" and "num p \<le> 2 ^ 50"
  shows "h_avgCost (fill_holding binary64 side p v h) =
    StrongType (Fin False (roll_forward a (of_int \<bar>position_of h\<bar>) (usd p) (of_int (num v))))"
proof -
  let ?d = "raw (signed_volume side v)" and ?x = "raw (h_volume h)"
  have v: "1 \<le> num v" using assms(2) num_sign(2) [of v] by linarith
  have nd: "ival ?d = (if side = Buy then num v else - num v)"
    using num_signed_volume [OF assms(2)] by (simp add: num_def)
  have x: "ival ?x = position_of h" by (simp add: position_of_def num_def)
  have d: "(if side = Buy then raw v else - raw v) = ?d" by (simp add: signed_volume_def)
  have "ival (?x + ?d) = ival ?x + ival ?d"
    using assms(3) v nd x by (intro ival_add_id) (auto simp: in_i64_def split: if_splits)
  then have "ival (?x + ?d) \<noteq> 0"
    using assms(1) v unfolding nd x by auto
  then have "?x + ?d \<noteq> 0" by simp
  moreover have "ival ?x = 0 \<or> (0 < ival ?x) = (0 < ival ?d)"
    using assms(1,2) v unfolding nd x by auto
  then have same: "?x = 0 \<or> (0 < ?x) = (0 < ?d)" by simp
  moreover have "in_range (ival ?x)" "in_range (ival ?d)"
    using assms(3) v unfolding nd x in_range_def by auto
  then have "ival (i64_abs ?x) = \<bar>position_of h\<bar>" "ival (i64_abs ?d) = num v"
    using v nd x by (simp_all add: ival_i64_abs)
  then have "double_of_i64 (i64_abs ?x) = Fin False (of_int \<bar>position_of h\<bar>)" "double_of_i64 (i64_abs ?d) = Fin False (of_int (num v))"
    using assms(3) v double_of_small [of "i64_abs ?x"] double_of_small [of "i64_abs ?d"] by (auto simp del: num_sign)
  ultimately show ?thesis
    using double_roll_forward [OF assms(5) abs_ge_zero v assms(3,6,7)] assms(4)
    unfolding fill_holding_def d Let_def by simp
qed

section \<open>Properties\<close>

text \<open>C6: average-cost bookkeeping is right. In exact arithmetic, after any sequence of fills of a ticker, long,
  short, closing or reversing, and a refresh at a market price, the position is the sum of the signed
  volumes and realized plus unrealized profit is what each fill earned against that price.\<close>

theorem average_cost_pnl:
  assumes "fills_ok 0 fs" and "u = RefreshUnrealizedPnl exact t mark (apply_fills exact t fs (new_User i))"
  shows "num (Position u t) = net fs \<and>
    raw (RealizedPnl exact u t) + raw (UnrealizedPnl exact u t) =
      (\<Sum>(side, p, v)\<leftarrow>fs. (usd mark - usd p) * of_int (fill_volume (side, p, v)))"
proof -
  let ?u = "apply_fills exact t fs (new_User i :: rat User)"
  have c: "cash (holding_of exact ?u t) = - (\<Sum>f\<leftarrow>fs. usd (fst (snd f)) * of_int (fill_volume f))"
    and p: "position_of (holding_of exact ?u t) = net fs"
    using apply_fills_cash [of "new_User i" t fs] assms(1) by (simp_all add: in_range_def)
  have "(\<Sum>(side, p, v)\<leftarrow>fs. (usd mark - usd p) * of_int (fill_volume (side, p, v))) =
      usd mark * of_int (net fs) - (\<Sum>f\<leftarrow>fs. usd (fst (snd f)) * of_int (fill_volume f))"
    by (induction fs) (auto simp: net_def algebra_simps)
  then show ?thesis
    using c p by (simp add: assms(2) RefreshUnrealizedPnl_exact Position_holding [of ?u t exact] position_of_def)
qed

theorem average_cost_pnl_witness:
  "let fs = [(Buy, Price 3000000, Volume 10), (Sell, Price 5000000, Volume 4), (Sell, Price 2000000, Volume 9)];
       u = RefreshUnrealizedPnl exact ''AAPL'' (Price 1000000) (apply_fills exact ''AAPL'' fs (new_User (UserId 7)))
   in num (Position u ''AAPL'') = - 3 \<and> raw (RealizedPnl exact u ''AAPL'') + raw (UnrealizedPnl exact u ''AAPL'') = 5"
  using average_cost_pnl
    [of "[(Buy, Price 3000000, Volume 10), (Sell, Price 5000000, Volume 4), (Sell, Price 2000000, Volume 9)]",
      OF _ refl, of "''AAPL''" "Price 1000000" "UserId 7"]
  by (simp add: i64_eval in_range_def fill_volume_def net_def usd_def PRICE_MULTIPLIER_def)

text \<open>C34: converting a price to dollars and back gives the price. The division by the price multiplier and the
  multiplication that undoes it both round, but up to \<open>2 ^ 50\<close> ticks, about 1.1 billion dollars, the
  rounding to the nearest integer removes both errors.\<close>

theorem price_usd_roundtrip:
  assumes "\<bar>num p\<bar> \<le> 2 ^ 50"
  shows "ToPrice (ToUsd binary64 p) = Some p"
proof -
  let ?m = "of_int \<bar>num p\<bar> :: rat" and ?y = "rnd \<bar>usd p\<bar>"
  define z where "z = rnd (?y * 1000000)"
  have m: "\<bar>usd p\<bar> * 1000000 = ?m" by (simp add: usd_def PRICE_MULTIPLIER_def)
  have n: "normal \<bar>usd p\<bar>" and small: "\<bar>usd p\<bar> \<le> 2 ^ 50"
    using usd_normal [OF _ assms] by (cases "num p = 0"; force simp: usd_def normal_def)+
  have y: "\<bar>usd p\<bar> / 2 \<le> ?y" "?y \<le> 2 * \<bar>usd p\<bar>" by (simp_all only: rnd_factor_2 [OF abs_ge_zero n])
  have ny: "normal (?y * 1000000)"
  proof (cases "num p = 0")
    case False
    have "(1 :: rat) / 2 ^ 1000 \<le> 1 / 2" by simp
    with usd_normal(1) [OF False assms] y(1) show ?thesis by (intro normal_ge) linarith
  qed (simp add: usd_def rnd_def normal_def)
  have "rounds (Suc 0) ?m (?y * 1000000)"
    using rounds_mult [OF rounds_rnd [OF rounds_refl n], of 1000000] m by simp
  then have err: "\<bar>z - ?m\<bar> \<le> 3 * eps * ?m"
    using rounds_rnd [OF _ ny] rounds_error(1) unfolding z_def by (metis numeral_2_eq_2)
  have "?m \<le> of_int (2 ^ 50)" using assms by (simp only: of_int_le_iff)
  then have "3 * eps * ?m < 1 / 2" by (simp add: eps_def)
  then have half: "\<bar>z - ?m\<bar> < 1 / 2" using err by linarith
  have "?y * 1000000 \<le> 2 ^ 1000"
    using y(2) small by (rule_tac order.trans [of _ "2 * 2 ^ 50 * 1000000"]) simp_all
  then have "dmul (Fin (num p < 0) ?y) (Fin False 1000000) = Fin (num p < 0) z"
    using dmul_nonneg [of ?y 1000000 "num p < 0" False] ny y(1) by (simp add: z_def)
  then show ?thesis
    using half_away_near [OF half]
    by (simp add: ToPrice_def ToUsd_binary64 [OF assms] double_of_multiplier num_def del: num_sign)
qed

theorem price_usd_roundtrip_witness:
  "ToPrice (ToUsd binary64 (Price 150000001)) = Some (Price 150000001)"
  by (rule price_usd_roundtrip) (simp add: i64_eval)



end
