(* ===== verification/Registry.thy ===== *)
theory Registry
  imports User_Properties
begin

text \<open>
  \<open>UserRegistry\<close> of \<open>common/engine/user_registry.hpp\<close> and the settlement of one trade, the body of the loop
  of \<open>RunInventoryThread\<close> in \<open>common/workers/inventory_thread.cpp\<close>. The snapshot file is the text written to
  it; the file system is a parameter, and so is the iteration order of the third-party hash map that
  holds a user's inventory.
\<close>

section \<open>The registry\<close>

definition MARKET_PARTICIPANT_COUNT :: int where
  "MARKET_PARTICIPANT_COUNT = 100"

record 'd UserRegistry =
  ur_users :: "'d User list"

definition new_UserRegistry :: "'d UserRegistry" where
  "new_UserRegistry = \<lparr>ur_users = map (\<lambda>i. new_User (UserId i)) [0..MARKET_PARTICIPANT_COUNT - 1]\<rparr>"

text \<open>\<open>static_cast<std::size_t>\<close> of an id reads its bits as an unsigned number.\<close>

definition user_index :: "UserId \<Rightarrow> nat" where
  "user_index i = unat (bits (raw i))"

text \<open>\<open>Get\<close> hands out a reference: the place of the user in the vector.\<close>

definition Get :: "'d UserRegistry \<Rightarrow> UserId \<Rightarrow> nat res" where
  "Get reg i = (if user_index i < length (ur_users reg) then Inr (user_index i) else Inl OutOfRange)"

definition update_user :: "nat \<Rightarrow> ('d User \<Rightarrow> 'd User) \<Rightarrow> 'd UserRegistry \<Rightarrow> 'd UserRegistry" where
  "update_user n f reg = reg\<lparr>ur_users := (ur_users reg)[n := f (ur_users reg ! n)]\<rparr>"

section \<open>Settling a trade\<close>

definition settle :: "'d arith \<Rightarrow> (Ticker \<Rightarrow> Price option) \<Rightarrow> Trade \<Rightarrow> 'd UserRegistry \<Rightarrow> 'd UserRegistry res" where
  "settle A mid_price trade registry =
     (let makerSide = (if t_takerSide trade = Buy then Sell else Buy)
      in bind_res (Get registry (t_makerId trade)) (\<lambda>maker.
         bind_res (Get registry (t_takerId trade)) (\<lambda>taker.
         let registry = update_user maker
               (ApplyFill A (t_ticker trade) makerSide (t_executionPrice trade) (t_volume trade)) registry;
             registry = update_user taker
               (ApplyFill A (t_ticker trade) (t_takerSide trade) (t_executionPrice trade) (t_volume trade)) registry
         in case mid_price (t_ticker trade) of
              None \<Rightarrow> Inr registry
            | Some mid \<Rightarrow>
                let registry = update_user maker (RefreshUnrealizedPnl A (t_ticker trade) mid) registry
                in Inr (update_user taker (RefreshUnrealizedPnl A (t_ticker trade) mid) registry))))"

text \<open>A batch of trades, each with the mid prices in force when it is settled.\<close>

fun settle_all ::
  "'d arith \<Rightarrow> ((Ticker \<Rightarrow> Price option) \<times> Trade) list \<Rightarrow> 'd UserRegistry \<Rightarrow> 'd UserRegistry res" where
  "settle_all A [] registry = Inr registry"
| "settle_all A ((mid, t) # ts) registry = bind_res (settle A mid t registry) (settle_all A ts)"

section \<open>The snapshot file\<close>

text \<open>
  What \<open>operator<<\<close> writes. An integer is in decimal. A \<open>double\<close> is in the default format, \<open>%g\<close> with six
  significant digits: the digits are rounded to nearest, trailing zeros are dropped, and exponents
  below -4 or above 5 are written in scientific notation.
\<close>

fun show_nat :: "nat \<Rightarrow> string" where
  "show_nat n = (if n < 10 then [char_of (48 + n)] else show_nat (n div 10) @ [char_of (48 + n mod 10)])"

declare show_nat.simps [simp del]

definition show_int :: "int \<Rightarrow> string" where
  "show_int k = (if k < 0 then ''-'' @ show_nat (nat (- k)) else show_nat (nat k))"

definition strip_zeros :: "string \<Rightarrow> string" where
  "strip_zeros s = rev (dropWhile (\<lambda>c. c = CHR ''0'') (rev s))"

text \<open>The decimal exponent of a positive magnitude: \<open>10 powi exp10 m \<le> m < 10 powi (exp10 m + 1)\<close>.\<close>

definition exp10 :: "rat \<Rightarrow> int" where
  "exp10 m =
     (if 1 \<le> m then int (length (show_nat (nat \<lfloor>m\<rfloor>))) - 1
      else - int (length (show_nat (nat (\<lceil>1 / m\<rceil> - 1)))))"

text \<open>The six digits and the exponent they stand for; rounding up to a seventh digit moves the exponent.\<close>

definition digits6 :: "rat \<Rightarrow> string \<times> int" where
  "digits6 m =
     (let e = exp10 m; d = half_even (m / 10 powi (e - 5))
      in if d = 1000000 then (show_nat 100000, e + 1) else (show_nat (nat d), e))"

definition point :: "string \<Rightarrow> string \<Rightarrow> string" where
  "point whole fraction = (if strip_zeros fraction = [] then whole else whole @ ''.'' @ strip_zeros fraction)"

definition show_magnitude :: "rat \<Rightarrow> string" where
  "show_magnitude m =
     (if m = 0 then ''0''
      else case digits6 m of (ds, e) \<Rightarrow>
        if 0 \<le> e \<and> e < 6 then point (take (nat e + 1) ds) (drop (nat e + 1) ds)
        else if - 4 \<le> e \<and> e < 0 then point ''0'' (replicate (nat (- e - 1)) CHR ''0'' @ ds)
        else point (take 1 ds) (drop 1 ds) @ ''e'' @ (if e < 0 then ''-'' else ''+'') @
          (if \<bar>e\<bar> < 10 then ''0'' else []) @ show_nat (nat \<bar>e\<bar>))"

fun show_double :: "double \<Rightarrow> string" where
  "show_double NaN = ''nan''"
| "show_double (Inf s) = (if s then ''-inf'' else ''inf'')"
| "show_double (Fin s m) = (if s then ''-'' else []) @ show_magnitude m"

text \<open>\<open>operator<<\<close> of an instrument: its ticker and price with a tab between them.\<close>

definition show_Instrument :: "Instrument \<Rightarrow> string" where
  "show_Instrument i = i_ticker i @ [char_of (9 :: nat)] @ show_int (num (i_price i))"

type_synonym snapshot_row = "UserId \<times> Ticker \<times> double Holding"

definition newline :: string where
  "newline = [char_of (10 :: nat)]"

definition csv_header :: string where
  "csv_header = ''userId,ticker,position,avgCost,realizedPnl,unrealizedPnl'' @ newline"

definition csv_row :: "snapshot_row \<Rightarrow> string" where
  "csv_row row = (case row of (i, ticker, holding) \<Rightarrow>
     show_int (num i) @ '','' @ ticker @ '','' @ show_int (num (h_volume holding)) @ '','' @
     show_double (raw (h_avgCost holding)) @ '','' @ show_double (raw (h_realizedPnl holding)) @ '','' @
     show_double (raw (h_unrealizedPnl holding)) @ newline)"

definition snapshot_rows ::
  "((Ticker \<rightharpoonup> double Holding) \<Rightarrow> (Ticker \<times> double Holding) list) \<Rightarrow> double UserRegistry \<Rightarrow> snapshot_row list" where
  "snapshot_rows items reg = concat (map (\<lambda>u. map (\<lambda>(t, h). (User_Id u, t, h)) (items (Inventory u))) (ur_users reg))"

definition WriteSnapshot ::
  "(string \<Rightarrow> bool) \<Rightarrow> ((Ticker \<rightharpoonup> double Holding) \<Rightarrow> (Ticker \<times> double Holding) list)
   \<Rightarrow> string \<Rightarrow> double UserRegistry \<Rightarrow> string res" where
  "WriteSnapshot can_open items path reg =
     (if \<not> can_open path then Inl (RuntimeError (''UserRegistry::WriteSnapshot: failed to open '' @ path))
      else Inr (csv_header @ concat (map csv_row (snapshot_rows items reg))))"

section \<open>The registry's invariant\<close>

definition registry_ok :: "'d UserRegistry \<Rightarrow> bool" where
  "registry_ok reg \<longleftrightarrow>
     length (ur_users reg) = nat MARKET_PARTICIPANT_COUNT \<and>
     (\<forall>n < length (ur_users reg). u_id (ur_users reg ! n) = UserId (int n) \<and> finite (dom (u_inventory (ur_users reg ! n))))"

lemma registry_ok_new: "registry_ok new_UserRegistry"
  by (auto simp: registry_ok_def new_UserRegistry_def new_User_def MARKET_PARTICIPANT_COUNT_def)

lemma u_id_ops [simp]: "u_id (ApplyFill A t side p v u) = u_id u" "u_id (RefreshUnrealizedPnl A t m u) = u_id u"
  by (simp_all add: ApplyFill_def RefreshUnrealizedPnl_def Let_def split: option.splits)

lemma dom_ops [simp]:
  "dom (u_inventory (ApplyFill A t side p v u)) = insert t (dom (u_inventory u))"
  "dom (u_inventory (RefreshUnrealizedPnl A t m u)) = dom (u_inventory u)"
  by (auto simp: ApplyFill_def RefreshUnrealizedPnl_def Let_def split: option.splits)

lemma registry_ok_update:
  assumes "registry_ok reg" and "\<And>u. u_id (f u) = u_id u" and "\<And>u. finite (dom (u_inventory u)) \<Longrightarrow> finite (dom (u_inventory (f u)))"
  shows "registry_ok (update_user n f reg)"
  using assms by (cases "n < length (ur_users reg)")
    (auto simp: registry_ok_def update_user_def nth_list_update list_update_beyond)

lemma user_index_less:
  "user_index i < nat MARKET_PARTICIPANT_COUNT \<longleftrightarrow> 0 \<le> num i \<and> num i < MARKET_PARTICIPANT_COUNT"
  using uint_bits [of "raw i"] num_range [of i]
  by (simp add: user_index_def MARKET_PARTICIPANT_COUNT_def num_def unat_eq_nat_uint nat_less_iff split: if_splits)

definition participant :: "UserId \<Rightarrow> bool" where
  "participant i \<longleftrightarrow> 0 \<le> num i \<and> num i < MARKET_PARTICIPANT_COUNT"

lemma Get_eq: "registry_ok reg \<Longrightarrow> Get reg i = (if participant i then Inr (user_index i) else Inl OutOfRange)"
  by (simp add: Get_def registry_ok_def user_index_less participant_def)

section \<open>What a settlement changes\<close>

text \<open>
  A measure of an account (its position, or the money its fills have cost) that a fill moves by an
  amount depending on the trade and the side, that marking to market leaves alone, and whose moves
  for the two sides of a trade cancel. A settled trade then moves the measure of its maker and its
  taker only, by opposite amounts. \<open>ok k\<close> is a bound on the account that grows by at most the trade's
  \<open>cost\<close> with each fill and keeps the machine arithmetic exact below \<open>limit\<close>.
\<close>

locale account_measure =
  fixes A :: "'d arith" and F :: "'d User \<Rightarrow> 'b :: ab_group_add" and delta :: "Trade \<Rightarrow> Side \<Rightarrow> 'b"
    and ok :: "int \<Rightarrow> 'd User \<Rightarrow> bool" and cost :: "Trade \<Rightarrow> int" and limit :: int and fair :: "Trade \<Rightarrow> bool"
  assumes fill: "ok k u \<Longrightarrow> fair tr \<Longrightarrow> k + cost tr < limit \<Longrightarrow>
      F (ApplyFill A (t_ticker tr) side (t_executionPrice tr) (t_volume tr) u) = F u + delta tr side \<and>
      ok (k + cost tr) (ApplyFill A (t_ticker tr) side (t_executionPrice tr) (t_volume tr) u)"
    and refresh: "F (RefreshUnrealizedPnl A t m u) = F u" "ok k (RefreshUnrealizedPnl A t m u) = ok k u"
    and opposite: "delta tr Buy + delta tr Sell = 0"
    and cost_nonneg: "fair tr \<Longrightarrow> 0 \<le> cost tr"
    and ok_mono: "ok k u \<Longrightarrow> k \<le> k' \<Longrightarrow> ok k' u"
    and new: "F (new_User i) = 0" "ok 0 (new_User i)"
begin

definition all_ok :: "int \<Rightarrow> 'd UserRegistry \<Rightarrow> bool" where
  "all_ok k reg \<longleftrightarrow> (\<forall>u \<in> set (ur_users reg). ok k u)"

definition measure_at :: "'d UserRegistry \<Rightarrow> nat \<Rightarrow> 'b" where
  "measure_at reg n = F (ur_users reg ! n)"

definition moved :: "Trade \<Rightarrow> nat \<Rightarrow> 'b" where
  "moved tr n =
     (if n = user_index (t_makerId tr) then delta tr (if t_takerSide tr = Buy then Sell else Buy) else 0) +
     (if n = user_index (t_takerId tr) then delta tr (t_takerSide tr) else 0)"

lemma update_fill:
  assumes "all_ok k reg" and "fair tr" and "k + cost tr < limit" and "n < length (ur_users reg)"
    and "reg' = update_user n (ApplyFill A (t_ticker tr) side (t_executionPrice tr) (t_volume tr)) reg"
  shows "all_ok (k + cost tr) reg'" and "length (ur_users reg') = length (ur_users reg)"
    and "m < length (ur_users reg) \<Longrightarrow> measure_at reg' m = measure_at reg m + (if m = n then delta tr side else 0)"
proof -
  have u: "ok k (ur_users reg ! n)" using assms(1,4) by (simp add: all_ok_def)
  note f = fill [OF u assms(2,3), of side]
  have "\<forall>u \<in> set (ur_users reg). ok (k + cost tr) u"
    using assms(1) ok_mono cost_nonneg [OF assms(2)] by (auto simp: all_ok_def)
  then show "all_ok (k + cost tr) reg'"
    using f by (auto simp: all_ok_def assms(5) update_user_def dest!: subsetD [OF set_update_subset_insert])
  show "length (ur_users reg') = length (ur_users reg)" by (simp add: assms(5) update_user_def)
  show "m < length (ur_users reg) \<Longrightarrow> measure_at reg' m = measure_at reg m + (if m = n then delta tr side else 0)"
    using f assms(4) by (simp add: measure_at_def assms(5) update_user_def)
qed

lemma update_refresh:
  assumes "n < length (ur_users reg)" and "reg' = update_user n (RefreshUnrealizedPnl A t p) reg"
  shows "all_ok k reg \<Longrightarrow> all_ok k reg'" and "length (ur_users reg') = length (ur_users reg)"
    and "m < length (ur_users reg) \<Longrightarrow> measure_at reg' m = measure_at reg m"
proof -
  show "all_ok k reg \<Longrightarrow> all_ok k reg'"
    using refresh(2) assms(1)
    by (auto simp: all_ok_def assms(2) update_user_def dest!: subsetD [OF set_update_subset_insert])
  show "length (ur_users reg') = length (ur_users reg)" by (simp add: assms(2) update_user_def)
  show "m < length (ur_users reg) \<Longrightarrow> measure_at reg' m = measure_at reg m"
    using refresh(1) assms(1) by (simp add: measure_at_def assms(2) update_user_def nth_list_update)
qed

lemma settle_moves:
  assumes "settle A mid tr reg = Inr reg'" and "all_ok k reg" and "fair tr" and "k + 2 * cost tr < limit"
  shows "all_ok (k + 2 * cost tr) reg' \<and> length (ur_users reg') = length (ur_users reg) \<and>
    user_index (t_makerId tr) < length (ur_users reg) \<and> user_index (t_takerId tr) < length (ur_users reg) \<and>
    (\<forall>m < length (ur_users reg). measure_at reg' m = measure_at reg m + moved tr m)"
proof -
  let ?m = "user_index (t_makerId tr)" and ?t = "user_index (t_takerId tr)"
  let ?fill = "\<lambda>side. ApplyFill A (t_ticker tr) side (t_executionPrice tr) (t_volume tr)"
  let ?side = "if t_takerSide tr = Buy then Sell else Buy"
  define r1 where "r1 = update_user ?m (?fill ?side) reg"
  define r2 where "r2 = update_user ?t (?fill (t_takerSide tr)) r1"
  have idx: "?m < length (ur_users reg)" "?t < length (ur_users reg)"
    using assms(1) by (auto simp: settle_def Let_def Get_def bind_res_eq_Inr split: if_splits)
  have "k + cost tr < limit" "(k + cost tr) + cost tr < limit" using assms(4) cost_nonneg [OF assms(3)] by linarith+
  note f1 = update_fill [OF assms(2,3) this(1) idx(1) r1_def]
  note f2 = update_fill [OF f1(1) assms(3) \<open>(k + cost tr) + cost tr < limit\<close> _ r2_def, unfolded f1(2), OF idx(2)]
  have r2: "all_ok (k + 2 * cost tr) r2 \<and> length (ur_users r2) = length (ur_users reg) \<and>
      (\<forall>m < length (ur_users reg). measure_at r2 m = measure_at reg m + moved tr m)"
    using f1 f2 by (simp add: moved_def add.assoc)
  show ?thesis
  proof (cases "mid (t_ticker tr)")
    case None
    then have "reg' = r2"
      using assms(1) idx by (simp add: settle_def Let_def Get_def r1_def r2_def)
    then show ?thesis using r2 idx by simp
  next
    case (Some p)
    define r3 where "r3 = update_user ?m (RefreshUnrealizedPnl A (t_ticker tr) p) r2"
    have r': "reg' = update_user ?t (RefreshUnrealizedPnl A (t_ticker tr) p) r3"
      using assms(1) idx Some by (simp add: settle_def Let_def Get_def r1_def r2_def r3_def)
    note u3 = update_refresh [OF _ r3_def, unfolded conjunct1 [OF conjunct2 [OF r2]], OF idx(1)]
    note u4 = update_refresh [OF _ r', unfolded u3(2), OF idx(2)]
    show ?thesis using r2 u3 u4 idx by simp
  qed
qed

lemma settle_all_moves:
  assumes "settle_all A ts reg = Inr reg'" and "all_ok k reg" and "\<forall>tr \<in> set (map snd ts). fair tr"
    and "k + 2 * (\<Sum>tr\<leftarrow>map snd ts. cost tr) < limit" and "m < length (ur_users reg)"
  shows "length (ur_users reg') = length (ur_users reg) \<and>
    measure_at reg' m = measure_at reg m + (\<Sum>tr\<leftarrow>map snd ts. moved tr m)"
  using assms
proof (induction ts arbitrary: reg k)
  case (Cons x ts)
  obtain mid tr where x: "x = (mid, tr)" by (cases x)
  obtain r where r: "settle A mid tr reg = Inr r" "settle_all A ts r = Inr reg'"
    using Cons.prems(1) by (auto simp: x bind_res_eq_Inr)
  have "0 \<le> (\<Sum>tr\<leftarrow>map snd ts. cost tr)"
    using Cons.prems(3) by (intro sum_list_nonneg) (auto intro: cost_nonneg)
  then have s: "k + 2 * cost tr < limit" using Cons.prems(4) by (simp add: x)
  note mv = settle_moves [OF r(1) Cons.prems(2) _ s]
  show ?case
    using Cons.IH [OF r(2), of "k + 2 * cost tr"] mv Cons.prems by (auto simp: x algebra_simps)
qed simp

definition total :: "'d UserRegistry \<Rightarrow> 'b" where
  "total reg = (\<Sum>u\<leftarrow>ur_users reg. F u)"

lemma total_nth: "total reg = (\<Sum>n<length (ur_users reg). measure_at reg n)"
  by (simp add: total_def measure_at_def sum_list_sum_nth atLeast0LessThan)

lemma settle_all_total:
  assumes "settle_all A ts reg = Inr reg'" and "all_ok k reg" and "\<forall>tr \<in> set (map snd ts). fair tr"
    and "k + 2 * (\<Sum>tr\<leftarrow>map snd ts. cost tr) < limit"
  shows "total reg' = total reg"
  using assms
proof (induction ts arbitrary: reg k)
  case (Cons x ts)
  obtain mid tr where x: "x = (mid, tr)" by (cases x)
  obtain r where r: "settle A mid tr reg = Inr r" "settle_all A ts r = Inr reg'"
    using Cons.prems(1) by (auto simp: x bind_res_eq_Inr)
  have "0 \<le> (\<Sum>tr\<leftarrow>map snd ts. cost tr)"
    using Cons.prems(3) by (intro sum_list_nonneg) (auto intro: cost_nonneg)
  then have s: "k + 2 * cost tr < limit" using Cons.prems(4) by (simp add: x)
  have fair: "fair tr" using Cons.prems(3) by (simp add: x)
  note mv = settle_moves [OF r(1) Cons.prems(2) fair s]
  have "delta tr Sell + delta tr Buy = 0" using opposite [of tr] by (simp add: add.commute)
  then have "(\<Sum>n<length (ur_users reg). moved tr n) = 0"
    using mv opposite [of tr] by (cases "t_takerSide tr") (simp_all add: moved_def sum.distrib)
  then have "total r = total reg" using mv by (simp add: total_nth sum.distrib)
  then show ?case
    using Cons.IH [OF r(2), of "k + 2 * cost tr"] mv Cons.prems by (simp add: x)
qed simp

lemma all_ok_new: "all_ok 0 new_UserRegistry"
  by (auto simp: all_ok_def new_UserRegistry_def new)

lemma measure_at_new: "m < nat MARKET_PARTICIPANT_COUNT \<Longrightarrow> measure_at new_UserRegistry m = 0"
  by (simp add: measure_at_def new_UserRegistry_def new)

lemma total_new: "total new_UserRegistry = 0"
  by (simp add: total_def new_UserRegistry_def o_def new)

end

text \<open>Positions, in the arithmetic of the machine: no bound is needed.\<close>

definition position_delta :: "Ticker \<Rightarrow> Trade \<Rightarrow> Side \<Rightarrow> Volume" where
  "position_delta t tr side = (if t_ticker tr = t then signed_volume side (t_volume tr) else 0)"

interpretation position: account_measure A "\<lambda>u. Position u t" "position_delta t" "\<lambda>k u. True" "\<lambda>tr. 0" 1 "\<lambda>tr. True"
  for A :: "'d arith" and t
  by unfold_locales (auto simp: Position_ApplyFill position_delta_def signed_volume_def)

text \<open>Shares and money as numbers, while no position can leave the 64-bit range.\<close>

definition fill_of :: "Trade \<Rightarrow> Side \<Rightarrow> Fill" where
  "fill_of tr side = (side, t_executionPrice tr, t_volume tr)"

definition within_shares :: "Ticker \<Rightarrow> int \<Rightarrow> rat User \<Rightarrow> bool" where
  "within_shares t k u \<longleftrightarrow> \<bar>position_of (holding_of exact u t)\<bar> \<le> k"

lemma holding_of_Refresh:
  "position_of (holding_of A (RefreshUnrealizedPnl A t m u) t') = position_of (holding_of A u t')"
  "cash (holding_of exact (RefreshUnrealizedPnl exact t m v) t') = cash (holding_of exact v t')"
  by (simp_all add: holding_of_def RefreshUnrealizedPnl_def position_of_def cash_def Let_def split: option.splits)

lemma exact_fill_measures:
  assumes "within_shares t k u" and "0 < t_volume tr" and "k + num (t_volume tr) < 2 ^ 63"
    and "u' = ApplyFill exact (t_ticker tr) side (t_executionPrice tr) (t_volume tr) u"
  shows "position_of (holding_of exact u' t) =
      position_of (holding_of exact u t) + (if t_ticker tr = t then fill_volume (fill_of tr side) else 0)"
    and "cash (holding_of exact u' t) = cash (holding_of exact u t) +
      (if t_ticker tr = t then - usd (t_executionPrice tr) * of_int (fill_volume (fill_of tr side)) else 0)"
    and "within_shares t (k + num (t_volume tr)) u'"
proof -
  let ?h = "holding_of exact u t"
  have d: "num (signed_volume side (t_volume tr)) = fill_volume (fill_of tr side)"
    using num_signed_volume [OF assms(2)] by (simp add: fill_of_def fill_volume_def)
  have v: "0 < num (t_volume tr)" using assms(2) by simp
  have b: "\<bar>position_of ?h + fill_volume (fill_of tr side)\<bar> \<le> k + num (t_volume tr)"
    using assms(1) v by (auto simp: within_shares_def fill_of_def fill_volume_def simp del: num_sign)
  have r: "in_range (position_of ?h)" "in_range (position_of ?h + num (signed_volume side (t_volume tr)))"
    using assms(1,3) v b by (auto simp: within_shares_def in_range_def d simp del: num_sign)
  show p: "position_of (holding_of exact u' t) =
      position_of (holding_of exact u t) + (if t_ticker tr = t then fill_volume (fill_of tr side) else 0)"
    using fill_holding_exact(1) [OF assms(2) r] by (simp add: assms(4) holding_of_ApplyFill d)
  show "cash (holding_of exact u' t) = cash (holding_of exact u t) +
      (if t_ticker tr = t then - usd (t_executionPrice tr) * of_int (fill_volume (fill_of tr side)) else 0)"
    using fill_holding_cash [OF assms(2) r] by (simp add: assms(4) holding_of_ApplyFill d)
  show "within_shares t (k + num (t_volume tr)) u'"
    using b p v assms(1) by (auto simp: within_shares_def simp del: num_sign split: if_splits)
qed

lemma within_shares_laws:
  "within_shares t k (RefreshUnrealizedPnl exact t' m u) = within_shares t k u"
  "within_shares t k u \<Longrightarrow> k \<le> k' \<Longrightarrow> within_shares t k' u" "within_shares t 0 (new_User i)"
  by (simp_all add: within_shares_def holding_of_Refresh)

interpretation shares: account_measure exact "\<lambda>u. position_of (holding_of exact u t)"
  "\<lambda>tr side. if t_ticker tr = t then fill_volume (fill_of tr side) else 0"
  "within_shares t" "\<lambda>tr. num (t_volume tr)" "2 ^ 63" "\<lambda>tr. 0 < t_volume tr" for t
  by unfold_locales
    (auto simp: exact_fill_measures within_shares_laws holding_of_Refresh fill_of_def fill_volume_def intro: less_imp_le)

interpretation money: account_measure exact "\<lambda>u. cash (holding_of exact u t)"
  "\<lambda>tr side. if t_ticker tr = t then - usd (t_executionPrice tr) * of_int (fill_volume (fill_of tr side)) else 0"
  "within_shares t" "\<lambda>tr. num (t_volume tr)" "2 ^ 63" "\<lambda>tr. 0 < t_volume tr" for t
  by unfold_locales
    (auto simp: exact_fill_measures within_shares_laws holding_of_Refresh fill_of_def fill_volume_def intro: less_imp_le)

end
