(* ===== verification/Registry_Properties.thy ===== *)
theory Registry_Properties
  imports Registry "HOL-Library.List_Lexorder" "HOL-Library.Char_ord"
begin

text \<open>
  What settlement and the final snapshot promise: positions follow the trades, settlement moves
  money between participants and creates none, the snapshot has a row for every holding, and where
  the code throws.
\<close>

section \<open>Settlement\<close>

lemma settle_ok: "registry_ok reg \<Longrightarrow> settle A mid tr reg = Inr reg' \<Longrightarrow> registry_ok reg'"
  by (auto simp: settle_def Let_def bind_res_eq_Inr registry_ok_update split: option.splits)

lemma settle_all_ok: "registry_ok reg \<Longrightarrow> settle_all A ts reg = Inr reg' \<Longrightarrow> registry_ok reg'"
  by (induction ts arbitrary: reg) (auto simp: bind_res_eq_Inr, metis settle_ok)

lemma settle_cases:
  assumes "registry_ok reg"
  shows "settle A mid tr reg = Inl OutOfRange \<longleftrightarrow> \<not> (participant (t_makerId tr) \<and> participant (t_takerId tr))"
    and "settle A mid tr reg \<noteq> Inl OutOfRange \<longleftrightarrow> (\<exists>reg'. settle A mid tr reg = Inr reg')"
  by (auto simp: settle_def Let_def Get_eq [OF assms] split: option.splits)

lemma user_index_inject [simp]: "user_index i = user_index j \<longleftrightarrow> i = j"
  by (auto simp: user_index_def dest!: unsigned_word_eqI intro: StrongType.expand int64.expand)

lemma length_registry: "settle_all A ts new_UserRegistry = Inr reg \<Longrightarrow> length (ur_users reg) = nat MARKET_PARTICIPANT_COUNT"
  using settle_all_ok [OF registry_ok_new] by (auto simp: registry_ok_def)

text \<open>How a trade changes the position of a participant in a ticker.\<close>

definition traded :: "Ticker \<Rightarrow> UserId \<Rightarrow> Trade \<Rightarrow> Volume" where
  "traded t i tr =
     (if t_ticker tr = t
      then (if t_makerId tr = i then signed_volume (if t_takerSide tr = Buy then Sell else Buy) (t_volume tr) else 0) +
           (if t_takerId tr = i then signed_volume (t_takerSide tr) (t_volume tr) else 0)
      else 0)"

lemma moved_traded: "position.moved t tr (user_index i) = traded t i tr"
  by (auto simp: position.moved_def traded_def position_delta_def)

section \<open>The order of a map's elements\<close>

text \<open>What the snapshot needs of the iteration over a hash map: every element once.\<close>

locale map_items =
  fixes items :: "(Ticker \<rightharpoonup> double Holding) \<Rightarrow> (Ticker \<times> double Holding) list"
  assumes distinct_items: "finite (dom m) \<Longrightarrow> distinct (map fst (items m))"
    and set_items: "finite (dom m) \<Longrightarrow> set (items m) = {(t, h). m t = Some h}"
begin

lemma rows:
  assumes "registry_ok reg"
  shows "distinct (map (\<lambda>(i, t, h). (i, t)) (snapshot_rows items reg))"
    and "set (snapshot_rows items reg) = {(u_id u, t, h) |u t h. u \<in> set (ur_users reg) \<and> u_inventory u t = Some h}"
proof -
  have fin: "finite (dom (u_inventory u))" if "u \<in> set (ur_users reg)" for u
    using assms that by (auto simp: registry_ok_def in_set_conv_nth)
  have n: "num (UserId (int n)) = int n" if "n < 100" for n
    using that by (simp add: num_def in_i64_def)
  have ids: "distinct (map u_id (ur_users reg))"
    using assms n by (auto simp: registry_ok_def distinct_conv_nth MARKET_PARTICIPANT_COUNT_def) (metis n of_nat_eq_iff)
  have "distinct (map (\<lambda>(i, t, h). (i, t)) (concat (map (\<lambda>u. map (\<lambda>(t, h). (u_id u, t, h)) (items (u_inventory u))) us)))"
    if "set us \<subseteq> set (ur_users reg)" "distinct (map u_id us)" for us
    using that
  proof (induction us)
    case (Cons u us)
    let ?row = "\<lambda>(t, h). (u_id u, t, h)" and ?key = "\<lambda>(i, t, h). (i, t)"
    have "map ?key (map ?row (items (u_inventory u))) = map (Pair (u_id u)) (map fst (items (u_inventory u)))" by auto
    then have "distinct (map ?key (map ?row (items (u_inventory u))))"
      using distinct_items [OF fin, of u] Cons.prems(1) by (simp add: distinct_map inj_on_def)
    moreover have "u_id u \<notin> u_id ` set us" using Cons.prems by simp
    ultimately show ?case using Cons by (simp del: map_map) force
  qed simp
  then show "distinct (map (\<lambda>(i, t, h). (i, t)) (snapshot_rows items reg))"
    using ids by (simp add: snapshot_rows_def)
  show "set (snapshot_rows items reg) = {(u_id u, t, h) |u t h. u \<in> set (ur_users reg) \<and> u_inventory u t = Some h}"
    using set_items [OF fin] by (force simp: snapshot_rows_def)
qed

end

definition items_by_ticker :: "(Ticker \<rightharpoonup> double Holding) \<Rightarrow> (Ticker \<times> double Holding) list" where
  "items_by_ticker m = map (\<lambda>t. (t, the (m t))) (sorted_list_of_set (dom m))"

interpretation by_ticker: map_items items_by_ticker
  by unfold_locales (auto simp: items_by_ticker_def o_def)

section \<open>Properties\<close>

text \<open>C17: positions follow the trades. After any trades have been settled, a participant's position in a ticker is
  the sum of what they bought less what they sold as maker or taker, a trade with themselves counting
  on both sides; and the positions of all participants add up to zero. This is in the machine's
  64-bit arithmetic, so it needs no bound on volumes, and holds whatever the arithmetic of the money.\<close>

theorem positions_follow_trades:
  assumes "settle_all A ts new_UserRegistry = Inr reg" and "participant i"
  shows "Position (ur_users reg ! user_index i) t = (\<Sum>tr\<leftarrow>map snd ts. traded t i tr) \<and>
    (\<Sum>u\<leftarrow>ur_users reg. Position u t) = 0"
proof -
  have i: "user_index i < nat MARKET_PARTICIPANT_COUNT"
    using assms(2) user_index_less by (simp add: participant_def)
  then have l: "user_index i < length (ur_users (new_UserRegistry :: 'a UserRegistry))"
    using registry_ok_new [where 'a = 'a] by (simp add: registry_ok_def)
  show ?thesis
    using position.settle_all_moves [OF assms(1) position.all_ok_new _ _ l, of t]
      position.settle_all_total [OF assms(1) position.all_ok_new, of t]
    unfolding position.measure_at_new [OF i] position.total_new moved_traded
    by (simp add: position.measure_at_def position.total_def o_def)
qed

definition sample_trade :: Trade where
  "sample_trade = \<lparr>t_makerId = UserId 3, t_takerId = UserId 7, t_makerOrderId = OrderId 1, t_takerOrderId = OrderId 2,
     t_ticker = ''AAPL'', t_takerSide = Buy, t_executionPrice = Price 2000000, t_volume = Volume 5\<rparr>"

theorem positions_follow_trades_witness:
  "\<exists>reg. settle_all binary64 [(\<lambda>t. Some (Price 2000000), sample_trade)] new_UserRegistry = Inr reg \<and>
     Position (ur_users reg ! user_index (UserId 7)) ''AAPL'' = Volume 5 \<and>
     Position (ur_users reg ! user_index (UserId 3)) ''AAPL'' = Volume (- 5)"
proof -
  obtain reg where reg: "settle_all binary64 [(\<lambda>t. Some (Price 2000000), sample_trade)] new_UserRegistry = Inr reg"
    using settle_cases [OF registry_ok_new, of binary64 "\<lambda>t. Some (Price 2000000)" sample_trade]
    by (auto simp: sample_trade_def participant_def MARKET_PARTICIPANT_COUNT_def i64_eval)
  have "participant (UserId 7)" "participant (UserId 3)"
    by (simp_all add: participant_def MARKET_PARTICIPANT_COUNT_def i64_eval)
  then show ?thesis
    using reg positions_follow_trades [OF reg, of "UserId 7" "''AAPL''"] positions_follow_trades [OF reg, of "UserId 3" "''AAPL''"]
    by (simp add: traded_def sample_trade_def signed_volume_def i64_eval)
qed

text \<open>Realized plus unrealized profit of an account in a ticker, marked at a price.\<close>

definition marked :: "Ticker \<Rightarrow> Price \<Rightarrow> rat User \<Rightarrow> rat" where
  "marked t mark u =
     (let u = RefreshUnrealizedPnl exact t mark u in raw (RealizedPnl exact u t) + raw (UnrealizedPnl exact u t))"

lemma sum_marked:
  "(\<Sum>u\<leftarrow>us. marked t mark u) =
     (\<Sum>u\<leftarrow>us. cash (holding_of exact u t)) + usd mark * of_int (\<Sum>u\<leftarrow>us. position_of (holding_of exact u t))"
  by (induction us) (simp_all add: marked_def RefreshUnrealizedPnl_exact algebra_simps)



text \<open>C35: the only way settlement fails. Whatever has been settled before, settling a trade throws out_of_range
  exactly when its maker or taker is not one of the hundred participants, negative ids included, and
  otherwise returns. The exception leaves the inventory thread and ends the process.\<close>

theorem settle_throws_iff:
  assumes "settle_all A ts new_UserRegistry = Inr reg"
  shows "settle A mid tr reg =
    (if participant (t_makerId tr) \<and> participant (t_takerId tr) then Inr (projr (settle A mid tr reg)) else Inl OutOfRange)"
  using settle_cases [OF settle_all_ok [OF registry_ok_new assms], of A mid tr] by (cases "settle A mid tr reg") auto

theorem settle_throws_iff_witness:
  "settle binary64 (\<lambda>t. None) (sample_trade\<lparr>t_takerId := UserId 100\<rparr>) new_UserRegistry = Inl OutOfRange \<and>
   settle binary64 (\<lambda>t. None) (sample_trade\<lparr>t_makerId := UserId (- 1)\<rparr>) new_UserRegistry = Inl OutOfRange"
  using settle_throws_iff [of binary64 "[]" new_UserRegistry "\<lambda>t. None" "sample_trade\<lparr>t_takerId := UserId 100\<rparr>"]
    settle_throws_iff [of binary64 "[]" new_UserRegistry "\<lambda>t. None" "sample_trade\<lparr>t_makerId := UserId (- 1)\<rparr>"]
  by (simp add: participant_def MARKET_PARTICIPANT_COUNT_def i64_eval)



lemma show_nat_simps:
  "n < 10 \<Longrightarrow> show_nat n = [char_of (48 + n)]"
  "\<not> n < 10 \<Longrightarrow> show_nat n = show_nat (n div 10) @ [char_of (48 + n mod 10)]"
  by (simp_all add: show_nat.simps [of n])

lemma show_nat_1234567: "show_nat 1234567 = ''1234567''" "show_nat 1234568 = ''1234568''" "show_nat 123457 = ''123457''"
  by (simp_all add: show_nat_simps char_of_def bit_Suc_0_iff)

definition sample_holding :: "rat \<Rightarrow> double Holding" where
  "sample_holding pnl = \<lparr>h_volume = 0, h_avgCost = StrongType (Fin False 0), h_realizedPnl = StrongType (Fin False pnl),
     h_unrealizedPnl = StrongType (Fin False 0)\<rparr>"

lemma digits6_sample: "digits6 (4938271 / 4) = (''123457'', 6)" "digits6 (4938273 / 4) = (''123457'', 6)"
proof -
  have f: "\<lfloor>4938271 / 4 :: rat\<rfloor> = 1234567" "\<lfloor>4938273 / 4 :: rat\<rfloor> = 1234568"
    "\<lfloor>4938271 / 40 :: rat\<rfloor> = 123456" "\<lfloor>4938273 / 40 :: rat\<rfloor> = 123456"
    by (simp_all add: floor_eq_iff)
  have e: "exp10 (4938271 / 4) = 6" "exp10 (4938273 / 4) = 6"
    by (simp_all add: exp10_def f show_nat_1234567)
  have h: "half_even (4938271 / 40) = 123457" "half_even (4938273 / 40) = 123457"
    by (simp_all add: half_even_def f)
  show "digits6 (4938271 / 4) = (''123457'', 6)" "digits6 (4938273 / 4) = (''123457'', 6)"
    by (simp_all add: digits6_def e h show_nat_1234567)
qed


end
