(* ===== verification/Flat_Map.thy ===== *)
theory Flat_Map
  imports Prelude
begin

text \<open>
  The C++23 container \<open>std::flat_map<Key, Value, Compare>\<close> as the engine uses it: a sequence
  of key/value pairs kept sorted by the comparator. The operations are the ones the source
  calls: lookup by key, subscripting (which inserts a default value), erasure at a key and the
  first element. Their contract is proved once for every strict linear comparator, in the
  locale \<open>comparator\<close>, and interpreted for the two comparators of the books.
\<close>

type_synonym ('k, 'v) flat_map = "('k \<times> 'v) list"

fun fm_find :: "('k \<Rightarrow> 'k \<Rightarrow> bool) \<Rightarrow> 'k \<Rightarrow> ('k, 'v) flat_map \<Rightarrow> 'v option" where
  "fm_find lt k [] = None"
| "fm_find lt k ((k', v) # m) =
     (if lt k' k then fm_find lt k m else if lt k k' then None else Some v)"

text \<open>
  \<open>m[k]\<close> yields a reference to the value at \<open>k\<close>, inserting the default-constructed value
  \<open>d\<close> at its sorted place when there is none; \<open>f\<close> is what the caller does to the reference.
\<close>

fun fm_subscript ::
  "('k \<Rightarrow> 'k \<Rightarrow> bool) \<Rightarrow> 'k \<Rightarrow> 'v \<Rightarrow> ('v \<Rightarrow> 'v) \<Rightarrow> ('k, 'v) flat_map \<Rightarrow> ('k, 'v) flat_map" where
  "fm_subscript lt k d f [] = [(k, f d)]"
| "fm_subscript lt k d f ((k', v) # m) =
     (if lt k' k then (k', v) # fm_subscript lt k d f m
      else if lt k k' then (k, f d) # (k', v) # m
      else (k', f v) # m)"

fun fm_erase :: "('k \<Rightarrow> 'k \<Rightarrow> bool) \<Rightarrow> 'k \<Rightarrow> ('k, 'v) flat_map \<Rightarrow> ('k, 'v) flat_map" where
  "fm_erase lt k [] = []"
| "fm_erase lt k ((k', v) # m) =
     (if lt k' k then (k', v) # fm_erase lt k m else if lt k k' then (k', v) # m else m)"

definition fm_keys :: "('k, 'v) flat_map \<Rightarrow> 'k set" where
  "fm_keys m = fst ` set m"

lemma fm_keys_simps [simp]: "fm_keys [] = {}" "fm_keys ((k, v) # m) = insert k (fm_keys m)"
  by (simp_all add: fm_keys_def)

lemma map_of_None_keys: "map_of m k = None \<longleftrightarrow> k \<notin> fm_keys m"
  by (simp add: map_of_eq_None_iff fm_keys_def)

definition fm_sorted :: "('k \<Rightarrow> 'k \<Rightarrow> bool) \<Rightarrow> ('k, 'v) flat_map \<Rightarrow> bool" where
  "fm_sorted lt m \<longleftrightarrow> sorted_wrt lt (map fst m)"

lemma fm_sorted_Nil [simp]: "fm_sorted lt []"
  by (simp add: fm_sorted_def)

lemma fm_sorted_Cons [simp]:
  "fm_sorted lt ((k, v) # m) \<longleftrightarrow> (\<forall>k' \<in> fm_keys m. lt k k') \<and> fm_sorted lt m"
  by (auto simp: fm_sorted_def fm_keys_def)

lemma fm_subscript_nonempty [simp]: "fm_subscript lt k d f m \<noteq> []"
  by (cases m) (auto split: if_splits)

text \<open>A map to lists, read in key order as one list of entries.\<close>

definition fm_flatten :: "('k, 'x list) flat_map \<Rightarrow> ('k \<times> 'x) list" where
  "fm_flatten m = concat (map (\<lambda>(k, xs). map (Pair k) xs) m)"

lemma fm_flatten_simps [simp]:
  "fm_flatten [] = []" "fm_flatten ((k, xs) # m) = map (Pair k) xs @ fm_flatten m"
  by (simp_all add: fm_flatten_def)

lemma fm_flatten_keys: "(k, x) \<in> set (fm_flatten m) \<Longrightarrow> k \<in> fm_keys m"
  by (force simp: fm_flatten_def fm_keys_def)

definition fm_full :: "('k, 'x list) flat_map \<Rightarrow> bool" where
  "fm_full m \<longleftrightarrow> (\<forall>(k, xs) \<in> set m. xs \<noteq> [])"

lemma fm_full_simps [simp]:
  "fm_full []" "fm_full ((k, xs) # m) \<longleftrightarrow> xs \<noteq> [] \<and> fm_full m"
  by (auto simp: fm_full_def)

lemma fm_flatten_Nil: "fm_full m \<Longrightarrow> fm_flatten m = [] \<longleftrightarrow> m = []"
  by (cases m) auto

lemma fm_flatten_keys_eq: "fm_full m \<Longrightarrow> fm_keys (fm_flatten m) = fm_keys m"
proof (induction m)
  case (Cons kv m)
  then show ?case
    by (cases kv) (simp add: fm_keys_def image_Un image_image image_constant_conv)
qed simp

text \<open>
  The place of a new entry in a list of entries: behind every entry whose key does not come
  after its own.
\<close>

definition stable_insert ::
  "('k \<Rightarrow> 'k \<Rightarrow> bool) \<Rightarrow> 'k \<times> 'x \<Rightarrow> ('k \<times> 'x) list \<Rightarrow> ('k \<times> 'x) list" where
  "stable_insert lt e xs =
     takeWhile (\<lambda>y. \<not> lt (fst e) (fst y)) xs @ [e] @ dropWhile (\<lambda>y. \<not> lt (fst e) (fst y)) xs"

lemma set_stable_insert [simp]: "set (stable_insert lt e xs) = insert e (set xs)"
proof -
  let ?P = "\<lambda>y. \<not> lt (fst e) (fst y)"
  have "set xs = set (takeWhile ?P xs @ dropWhile ?P xs)" by simp
  also have "\<dots> = set (takeWhile ?P xs) \<union> set (dropWhile ?P xs)" by (rule set_append)
  finally show ?thesis by (auto simp: stable_insert_def)
qed

lemma stable_insert_before:
  "\<forall>y \<in> set xs. \<not> lt k (fst y) \<Longrightarrow> stable_insert lt (k, x) (xs @ ys) = xs @ stable_insert lt (k, x) ys"
  by (simp add: stable_insert_def takeWhile_append2 dropWhile_append2)

lemma stable_insert_front:
  "\<forall>y \<in> set ys. lt k (fst y) \<Longrightarrow> stable_insert lt (k, x) ys = (k, x) # ys"
  by (cases ys) (simp_all add: stable_insert_def)

locale comparator =
  fixes lt :: "'k \<Rightarrow> 'k \<Rightarrow> bool"
  assumes irrefl: "\<not> lt k k"
    and trans: "lt a b \<Longrightarrow> lt b c \<Longrightarrow> lt a c"
    and total: "a \<noteq> b \<Longrightarrow> lt a b \<or> lt b a"
begin

lemma asym: "lt a b \<Longrightarrow> \<not> lt b a"
  using irrefl trans by blast

lemma eqv_eq: "\<not> lt a b \<Longrightarrow> \<not> lt b a \<Longrightarrow> a = b"
  using total by blast

lemma key_beyond:
  assumes "fm_sorted lt ((k', v) # m)" and "lt k k' \<or> k = k'"
  shows "\<forall>x \<in> fm_keys m. lt k x" and "map_of m k = None"
proof -
  show *: "\<forall>x \<in> fm_keys m. lt k x"
    using assms trans unfolding fm_sorted_Cons by blast
  show "map_of m k = None"
    using * irrefl unfolding map_of_None_keys by blast
qed

lemma find_eq_map_of: "fm_sorted lt m \<Longrightarrow> fm_find lt k m = map_of m k"
proof (induction m)
  case (Cons kv m)
  obtain k' v where kv: "kv = (k', v)" by (cases kv)
  consider "lt k' k" | "lt k k'" | "k = k'" using total by blast
  then show ?case
    using Cons irrefl asym key_beyond(2) [of k' v m k] by cases (auto simp: kv)
qed simp

lemma find_absent: "fm_sorted lt m \<Longrightarrow> k \<notin> fm_keys m \<Longrightarrow> fm_find lt k m = None"
  by (simp add: find_eq_map_of map_of_None_keys)

lemma keys_subscript: "fm_keys (fm_subscript lt k d f m) = insert k (fm_keys m)"
proof (induction m)
  case (Cons kv m)
  consider "lt (fst kv) k" | "lt k (fst kv)" | "k = fst kv" using total by blast
  then show ?case
    using Cons irrefl asym by cases (cases kv; simp add: insert_commute)+
qed simp

lemma sorted_subscript: "fm_sorted lt m \<Longrightarrow> fm_sorted lt (fm_subscript lt k d f m)"
proof (induction m)
  case (Cons kv m)
  obtain k' v where kv: "kv = (k', v)" by (cases kv)
  consider "lt k' k" | "lt k k'" | "k = k'" using total by blast
  then show ?case
    using Cons irrefl asym key_beyond(1) [of k' v m k]
    by cases (auto simp: kv keys_subscript)
qed simp

lemma map_of_subscript:
  assumes "fm_sorted lt m"
  shows "map_of (fm_subscript lt k d f m) =
    (map_of m)(k \<mapsto> f (case map_of m k of None \<Rightarrow> d | Some v \<Rightarrow> v))"
  using assms
proof (induction m)
  case (Cons kv m)
  obtain k' v where kv: "kv = (k', v)" by (cases kv)
  consider "lt k' k" | "lt k k'" | "k = k'" using total by blast
  then show ?case
    using Cons irrefl asym key_beyond(2) [of k' v m k] by cases (auto simp: kv fun_eq_iff)
qed simp

lemma erase_subset: "set (fm_erase lt k m) \<subseteq> set m"
  by (induction m) (auto split: if_splits)

lemma keys_erase: "fm_keys (fm_erase lt k m) \<subseteq> fm_keys m"
  using erase_subset by (auto simp: fm_keys_def)

lemma sorted_erase: "fm_sorted lt m \<Longrightarrow> fm_sorted lt (fm_erase lt k m)"
proof (induction m)
  case (Cons kv m)
  then show ?case
    using keys_erase [of k m] by (cases kv) auto
qed simp

lemma map_of_erase: "fm_sorted lt m \<Longrightarrow> map_of (fm_erase lt k m) = (map_of m)(k := None)"
proof (induction m)
  case (Cons kv m)
  obtain k' v where kv: "kv = (k', v)" by (cases kv)
  consider "lt k' k" | "lt k k'" | "k = k'" using total by blast
  then show ?case
    using Cons irrefl asym key_beyond(2) [of k' v m k] by cases (auto simp: kv fun_eq_iff)
qed simp

lemma distinct_keys: "fm_sorted lt m \<Longrightarrow> distinct (map fst m)"
proof (induction m)
  case (Cons kv m)
  then show ?case
    using key_beyond(2) [of "fst kv" "snd kv" m "fst kv"] by (cases kv) (auto simp: map_of_None_keys fm_keys_def)
qed simp

lemma full_iff_map_of: "fm_sorted lt m \<Longrightarrow> fm_full m \<longleftrightarrow> (\<forall>k xs. map_of m k = Some xs \<longrightarrow> xs \<noteq> [])"
  using map_of_eq_Some_iff [OF distinct_keys] by (fastforce simp: fm_full_def)

text \<open>Appending to the list at a key is the stable insertion into the flattened map.\<close>

lemma flatten_subscript:
  assumes "fm_sorted lt m"
  shows "fm_flatten (fm_subscript lt k [] (\<lambda>xs. xs @ [x]) m) = stable_insert lt (k, x) (fm_flatten m)"
  using assms
proof (induction m)
  case Nil
  then show ?case by (simp add: stable_insert_def)
next
  case (Cons kv m)
  obtain k' xs where kv: "kv = (k', xs)" by (cases kv)
  have later: "\<forall>y \<in> set (fm_flatten m). lt k (fst y)" if "lt k k' \<or> k = k'"
    using key_beyond(1) [OF Cons.prems [unfolded kv] that] fm_flatten_keys by fastforce
  consider "lt k' k" | "lt k k'" | "k = k'" using total by blast
  then show ?case
  proof cases
    case 1
    then have "\<forall>y \<in> set (map (Pair k') xs). \<not> lt k (fst y)" using asym by auto
    from stable_insert_before [of _ lt, OF this] 1 Cons show ?thesis by (simp add: kv)
  next
    case 2
    then have "\<forall>y \<in> set (fm_flatten (kv # m)). lt k (fst y)" using later by (auto simp: kv)
    from stable_insert_front [of _ lt, OF this] 2 asym [OF 2] show ?thesis by (simp add: kv)
  next
    case 3
    then have "\<forall>y \<in> set (map (Pair k') xs). \<not> lt k (fst y)" using irrefl by auto
    from stable_insert_before [of _ lt, OF this] stable_insert_front [of _ lt, OF later] 3 irrefl
    show ?thesis by (simp add: kv)
  qed
qed

text \<open>The flattened map is in key order.\<close>

lemma flatten_sorted: "fm_sorted lt m \<Longrightarrow> sorted_wrt (\<lambda>x y. \<not> lt (fst y) (fst x)) (fm_flatten m)"
proof (induction m)
  case (Cons kv m)
  obtain k xs where kv: "kv = (k, xs)" by (cases kv)
  have "\<not> lt (fst y) k" if "y \<in> set (fm_flatten m)" for y
    using Cons.prems that fm_flatten_keys [of "fst y" "snd y" m] asym by (auto simp: kv)
  moreover have "sorted_wrt (\<lambda>x y. \<not> lt (fst y) (fst x)) (map (Pair k) xs)"
    using irrefl by (induction xs) auto
  ultimately show ?case
    using Cons by (auto simp: kv sorted_wrt_append)
qed simp

lemma flatten_erase_empty:
  "fm_sorted lt m \<Longrightarrow> map_of m k = Some [] \<Longrightarrow> fm_flatten (fm_erase lt k m) = fm_flatten m"
proof (induction m)
  case (Cons kv m)
  obtain k' xs where kv: "kv = (k', xs)" by (cases kv)
  consider "lt k' k" | "lt k k'" | "k = k'" using total by blast
  then show ?case
    using Cons irrefl asym key_beyond(2) [of k' xs m k] by cases (auto simp: kv split: if_splits)
qed simp

lemma flatten_filter_level:
  assumes "fm_sorted lt m" and "map_of m k = Some xs"
  shows "fm_flatten (fm_subscript lt k [] (\<lambda>_. filter P xs) m) =
    filter (\<lambda>(k', x). k' = k \<longrightarrow> P x) (fm_flatten m)"
  using assms
proof (induction m)
  case (Cons kv m)
  obtain k' ys where kv: "kv = (k', ys)" by (cases kv)
  have other: "filter (\<lambda>(k', x). k' = k \<longrightarrow> P x) (map (Pair k') ys) = map (Pair k') ys" if "k \<noteq> k'"
    using that by (auto simp: filter_id_conv)
  have same: "filter (\<lambda>(k', x). k' = k \<longrightarrow> P x) (map (Pair k) ys) = map (Pair k) (filter P ys)"
    by (simp add: filter_map o_def)
  have rest: "filter (\<lambda>(k', x). k' = k \<longrightarrow> P x) (fm_flatten m) = fm_flatten m" if "k = k'"
    using key_beyond(1) [OF Cons.prems(1) [unfolded kv], of k] that irrefl fm_flatten_keys [of k _ m]
    by (force simp: filter_id_conv)
  consider "lt k' k" | "lt k k'" | "k = k'" using total by blast
  then show ?case
  proof cases
    case 1
    then have "k \<noteq> k'" using irrefl by auto
    with 1 Cons other show ?thesis by (simp add: kv)
  next
    case 2
    then have False
      using Cons.prems key_beyond(2) [of k' ys m k] irrefl by (auto simp: kv split: if_splits)
    then show ?thesis ..
  next
    case 3
    then show ?thesis using Cons.prems irrefl same rest by (simp add: kv)
  qed
qed simp

text \<open>The first element has the least key.\<close>

lemma begin_least: "fm_sorted lt ((k, v) # m) \<Longrightarrow> k' \<in> fm_keys ((k, v) # m) \<Longrightarrow> k' = k \<or> lt k k'"
  by auto

end

text \<open>The comparators of the two books: \<open>std::greater<>\<close> for bids, \<open>std::less<>\<close> for asks.\<close>

abbreviation (input) greater :: "'a::linorder \<Rightarrow> 'a \<Rightarrow> bool" where
  "greater \<equiv> (\<lambda>a b. b < a)"

interpretation fm_less: comparator "(<) :: 'a::linorder \<Rightarrow> 'a \<Rightarrow> bool"
  by unfold_locales auto

interpretation fm_greater: comparator "greater :: 'a::linorder \<Rightarrow> 'a \<Rightarrow> bool"
  by unfold_locales auto

end
