(* ===== verification/Seqlock.thy ===== *)
theory Seqlock
  imports Prelude
begin

unbundle bit_operations_syntax

text \<open>
  \<open>Seqlock<T>\<close> of \<open>common/core/seqlock.hpp\<close>. This first part is the object as one thread sees
  it: \<open>Store\<close> and \<open>Load\<close> run without interference.
\<close>

section \<open>Store and Load run alone\<close>

record 'a Seqlock =
  sl_sequence :: "64 word"
  sl_value :: 'a

definition Seqlock_new :: "'a \<Rightarrow> 'a Seqlock" where
  "Seqlock_new v = \<lparr>sl_sequence = 0, sl_value = v\<rparr>"

definition Store :: "'a \<Rightarrow> 'a Seqlock \<Rightarrow> 'a Seqlock" where
  "Store v s =
     (let seq = sl_sequence s;
          s = s\<lparr>sl_sequence := seq + 1\<rparr>;
          s = s\<lparr>sl_value := v\<rparr>
      in s\<lparr>sl_sequence := seq + 2\<rparr>)"

text \<open>
  The retry loop of \<open>Load\<close>: \<open>None\<close> is a loop that never returns, which is what a reader alone
  with an odd sequence number does.
\<close>

partial_function (option) Load :: "'a Seqlock \<Rightarrow> 'a option" where
  "Load s =
     (let before = sl_sequence s; result = sl_value s; after = sl_sequence s
      in if before \<noteq> after \<or> before AND 1 \<noteq> 0 then Load s else Some result)"

definition settled :: "'a Seqlock \<Rightarrow> bool" where
  "settled s \<longleftrightarrow> even (sl_sequence s)"

lemma and_1_eq_0_iff: "w AND 1 = 0 \<longleftrightarrow> even (w :: 64 word)"
  by (simp add: and_one_eq even_iff_mod_2_eq_zero)

lemma settled_new [simp]: "settled (Seqlock_new v)"
  by (simp add: settled_def Seqlock_new_def)

lemma settled_Store [simp]: "settled s \<Longrightarrow> settled (Store v s)"
  by (simp add: settled_def Store_def Let_def)

lemma value_Store [simp]: "sl_value (Store v s) = v"
  by (simp add: Store_def Let_def)

lemma Load_settled [simp]: "settled s \<Longrightarrow> Load s = Some (sl_value s)"
  by (subst Load.simps) (simp add: settled_def and_1_eq_0_iff)

end
