(* ===== verification/Matching_Engine.thy ===== *)
theory Matching_Engine
  imports Core_Types Flat_Map Seqlock
begin

text \<open>
  \<open>MatchingEngine\<close> of \<open>common/engine/matching_engine.hpp\<close> and \<open>.cpp\<close>: the order book of one
  instrument.
\<close>

section \<open>State\<close>

record RestingOrder =
  ro_orderId :: OrderId
  ro_userId :: UserId
  ro_volume :: Volume

record OrderLocation =
  ol_side :: Side
  ol_price :: Price
  ol_userId :: UserId

type_synonym PriceLevel = "RestingOrder list"
type_synonym Book = "(Price, PriceLevel) flat_map"
type_synonym OrderIndex = "OrderId \<rightharpoonup> OrderLocation"

record MatchingEngine =
  me_bids :: Book
  me_asks :: Book
  me_orderIndex :: OrderIndex
  me_midPrice :: "Price option Seqlock"

definition new_MatchingEngine :: MatchingEngine where
  "new_MatchingEngine =
     \<lparr>me_bids = [], me_asks = [], me_orderIndex = Map.empty, me_midPrice = Seqlock_new None\<rparr>"

section \<open>Matching\<close>

definition mk_trade :: "OrderAdd \<Rightarrow> Price \<Rightarrow> RestingOrder \<Rightarrow> Volume \<Rightarrow> Trade" where
  "mk_trade incoming level_price resting traded =
     \<lparr>t_makerId = ro_userId resting,
      t_takerId = a_userId incoming,
      t_makerOrderId = ro_orderId resting,
      t_takerOrderId = a_orderId incoming,
      t_ticker = a_ticker incoming,
      t_takerSide = a_side incoming,
      t_executionPrice = level_price,
      t_volume = traded\<rparr>"

text \<open>
  The trade handler is a callback on a state \<open>'s\<close> of its own: it is called once per fill, at the
  point where the source calls it. The inner loop consumes one price level from the front.
\<close>

function match_level ::
  "(Trade \<Rightarrow> 's \<Rightarrow> 's) \<Rightarrow> OrderAdd \<Rightarrow> Price \<Rightarrow> Volume \<Rightarrow> PriceLevel \<Rightarrow> OrderIndex \<Rightarrow> 's
   \<Rightarrow> Volume \<times> PriceLevel \<times> OrderIndex \<times> 's" where
  "match_level onTrade incoming p remaining [] idx s = (remaining, [], idx, s)"
| "match_level onTrade incoming p remaining (resting # rest) idx s =
     (if 0 < remaining then
        let traded = min remaining (ro_volume resting);
            s = onTrade (mk_trade incoming p resting traded) s;
            remaining = remaining - traded;
            resting = resting\<lparr>ro_volume := ro_volume resting - traded\<rparr>
        in if ro_volume resting = 0
           then match_level onTrade incoming p remaining rest (idx(ro_orderId resting := None)) s
           else match_level onTrade incoming p remaining (resting # rest) idx s
      else (remaining, resting # rest, idx, s))"
  by pat_completeness auto
termination
  by (relation "measure (\<lambda>(h, inc, p, q, level, idx, s). 2 * length level + (if 0 < q then 1 else 0))")
    (auto simp: min_def split: if_splits)

declare match_level.simps(2) [simp del]

text \<open>
  One iteration either removes the front order or uses up the incoming volume, so the loop
  has a structural equation.
\<close>

lemma match_level_Cons [simp]:
  "match_level h inc p q (r # rest) idx s =
     (if 0 < q then
        if ro_volume r \<le> q
        then match_level h inc p (q - ro_volume r) rest (idx(ro_orderId r := None))
               (h (mk_trade inc p r (ro_volume r)) s)
        else (0, r\<lparr>ro_volume := ro_volume r - q\<rparr> # rest, idx, h (mk_trade inc p r q) s)
      else (q, r # rest, idx, s))"
  by (cases "ro_volume r \<le> q")
    (auto simp: match_level.simps(2) [of h inc p q r rest idx s] Let_def min_def
      match_level.simps(2) [of h inc p 0])

text \<open>A level that is left non-empty has used up the incoming volume.\<close>

lemma match_level_leftover:
  "match_level h inc p q level idx s = (q', level', idx', s') \<Longrightarrow> level' = [] \<or> \<not> 0 < q'"
  by (induction level arbitrary: q idx s) (auto split: if_splits)

function Match ::
  "Book \<Rightarrow> OrderAdd \<Rightarrow> Volume \<Rightarrow> (Price \<Rightarrow> Price \<Rightarrow> bool) \<Rightarrow> (Trade \<Rightarrow> 's \<Rightarrow> 's) \<Rightarrow> OrderIndex \<Rightarrow> 's
   \<Rightarrow> Volume \<times> Book \<times> OrderIndex \<times> 's" where
  "Match [] incoming remaining priceCrosses onTrade idx s = (remaining, [], idx, s)"
| "Match ((p, level) # book) incoming remaining priceCrosses onTrade idx s =
     (if 0 < remaining then
        if \<not> priceCrosses (a_price incoming) p then (remaining, (p, level) # book, idx, s)
        else
          (case match_level onTrade incoming p remaining level idx s of
             (remaining', level', idx', s') \<Rightarrow>
               if level' = [] then Match book incoming remaining' priceCrosses onTrade idx' s'
               else Match ((p, level') # book) incoming remaining' priceCrosses onTrade idx' s')
      else (remaining, (p, level) # book, idx, s))"
  by pat_completeness auto
termination
  by (relation "measure (\<lambda>(book, inc, q, c, h, idx, s). 2 * length book + (if 0 < q then 1 else 0))")
    (auto dest: match_level_leftover [OF sym])

declare Match.simps(2) [simp del]

lemma Match_Cons [simp]:
  "Match ((p, level) # book) inc q crosses h idx s =
     (if 0 < q \<and> crosses (a_price inc) p then
        (case match_level h inc p q level idx s of
           (q', level', idx', s') \<Rightarrow>
             if level' = [] then Match book inc q' crosses h idx' s'
             else (q', (p, level') # book, idx', s'))
      else (q, (p, level) # book, idx, s))"
proof -
  obtain q' level' idx' s' where m: "match_level h inc p q level idx s = (q', level', idx', s')"
    by (cases "match_level h inc p q level idx s")
  show ?thesis
    using match_level_leftover [OF m]
    by (auto simp: m Match.simps(2) [of p level book inc q] Match.simps(2) [of p level' book inc q'])
qed

section \<open>Resting, cancelling, mid price\<close>

definition Rest :: "OrderAdd \<Rightarrow> Volume \<Rightarrow> MatchingEngine \<Rightarrow> MatchingEngine" where
  "Rest order remaining e =
     (let entry = \<lparr>ro_orderId = a_orderId order, ro_userId = a_userId order, ro_volume = remaining\<rparr>;
          e = (if a_side order = Buy
               then e\<lparr>me_bids := fm_subscript greater (a_price order) [] (\<lambda>level. level @ [entry]) (me_bids e)\<rparr>
               else e\<lparr>me_asks := fm_subscript (<) (a_price order) [] (\<lambda>level. level @ [entry]) (me_asks e)\<rparr>)
      in e\<lparr>me_orderIndex := (me_orderIndex e)(a_orderId order \<mapsto>
            \<lparr>ol_side = a_side order, ol_price = a_price order, ol_userId = a_userId order\<rparr>)\<rparr>)"

definition EraseFromBook :: "(Price \<Rightarrow> Price \<Rightarrow> bool) \<Rightarrow> Book \<Rightarrow> Price \<Rightarrow> OrderId \<Rightarrow> Book" where
  "EraseFromBook lt book price orderId =
     (case fm_find lt price book of
        None \<Rightarrow> book
      | Some level \<Rightarrow>
          let level = filter (\<lambda>r. ro_orderId r \<noteq> orderId) level;
              book = fm_subscript lt price [] (\<lambda>_. level) book
          in if level = [] then fm_erase lt price book else book)"

definition UpdateMidPrice :: "MatchingEngine \<Rightarrow> MatchingEngine" where
  "UpdateMidPrice e =
     (case (me_bids e, me_asks e) of
        ((bid, _) # _, (ask, _) # _) \<Rightarrow>
          e\<lparr>me_midPrice := Store (Some (StrongType (i64_div (raw bid + raw ask) (i64 2)))) (me_midPrice e)\<rparr>
      | ((bid, _) # _, []) \<Rightarrow> e\<lparr>me_midPrice := Store (Some bid) (me_midPrice e)\<rparr>
      | ([], (ask, _) # _) \<Rightarrow> e\<lparr>me_midPrice := Store (Some ask) (me_midPrice e)\<rparr>
      | ([], []) \<Rightarrow> e)"

definition MidPrice :: "MatchingEngine \<Rightarrow> Price option option" where
  "MidPrice e = Load (me_midPrice e)"

definition OnOrderAdd ::
  "OrderAdd \<Rightarrow> (Trade \<Rightarrow> 's \<Rightarrow> 's) \<Rightarrow> MatchingEngine \<Rightarrow> 's \<Rightarrow> MatchingEngine \<times> 's" where
  "OnOrderAdd order onTrade e s =
     (let remaining = a_volume order;
          (remaining, e, s) =
            (if a_side order = Buy
             then case Match (me_asks e) order remaining (\<lambda>buyPrice askPrice. buyPrice \<ge> askPrice)
                         onTrade (me_orderIndex e) s of
                    (remaining, book, idx, s) \<Rightarrow> (remaining, e\<lparr>me_asks := book, me_orderIndex := idx\<rparr>, s)
             else case Match (me_bids e) order remaining (\<lambda>sellPrice bidPrice. sellPrice \<le> bidPrice)
                         onTrade (me_orderIndex e) s of
                    (remaining, book, idx, s) \<Rightarrow> (remaining, e\<lparr>me_bids := book, me_orderIndex := idx\<rparr>, s));
          e = (if 0 < remaining then Rest order remaining e else e)
      in (UpdateMidPrice e, s))"

definition OnOrderCancel :: "OrderCancel \<Rightarrow> MatchingEngine \<Rightarrow> MatchingEngine" where
  "OnOrderCancel cancel e =
     (case me_orderIndex e (c_orderId cancel) of
        None \<Rightarrow> e
      | Some location \<Rightarrow>
          if ol_userId location \<noteq> c_userId cancel then e
          else
            let e = (if ol_side location = Buy
                     then e\<lparr>me_bids := EraseFromBook greater (me_bids e) (ol_price location) (c_orderId cancel)\<rparr>
                     else e\<lparr>me_asks := EraseFromBook (<) (me_asks e) (ol_price location) (c_orderId cancel)\<rparr>);
                e = e\<lparr>me_orderIndex := (me_orderIndex e)(c_orderId cancel := None)\<rparr>
            in UpdateMidPrice e)"

end
