(* ===== verification/Engine_Spec.thy ===== *)
theory Engine_Spec
  imports Matching_Engine
begin

text \<open>
  What matching should do, and that the engine's loops do it. The reference sees a side of the book
  as one list of resting orders in priority order; \<open>fill\<close> walks it once, \<open>stable_insert\<close> puts the
  remainder behind the orders of the same price. \<open>abs_engine\<close> flattens the engine's price levels to
  that view, and \<open>OnOrderAdd_refines\<close> is the simulation.
\<close>

section \<open>The reference fill\<close>

type_synonym Entry = "Price \<times> RestingOrder"

text \<open>
  The reference for matching: walk the resting orders in priority order, take from each what is
  wanted, stop at the first price that is not acceptable. The result is the fills (entry and
  volume taken), the volume still wanted and the entries left.
\<close>

fun fill :: "(Price \<Rightarrow> bool) \<Rightarrow> Volume \<Rightarrow> Entry list \<Rightarrow> (Entry \<times> Volume) list \<times> Volume \<times> Entry list" where
  "fill ok q [] = ([], q, [])"
| "fill ok q ((p, r) # es) =
     (if 0 < q \<and> ok p then
        if ro_volume r \<le> q
        then case fill ok (q - ro_volume r) es of
               (fs, q', es') \<Rightarrow> (((p, r), ro_volume r) # fs, q', es')
        else ([((p, r), q)], 0, (p, r\<lparr>ro_volume := ro_volume r - q\<rparr>) # es)
      else ([], q, (p, r) # es))"

text \<open>The ids of the orders a list of fills uses up, and the trade each fill prints.\<close>

definition exhausted :: "(Entry \<times> Volume) list \<Rightarrow> OrderId set" where
  "exhausted fs = set (map (\<lambda>((p, r), v). ro_orderId r) (filter (\<lambda>((p, r), v). v = ro_volume r) fs))"

definition trade_of :: "OrderAdd \<Rightarrow> Entry \<times> Volume \<Rightarrow> Trade" where
  "trade_of inc f = mk_trade inc (fst (fst f)) (snd (fst f)) (snd f)"

lemma exhausted_simps [simp]:
  "exhausted [] = {}"
  "exhausted (((p, r), v) # fs) = (if v = ro_volume r then insert (ro_orderId r) (exhausted fs) else exhausted fs)"
  by (simp_all add: exhausted_def)

lemma trade_of_pair [simp]: "trade_of inc ((p, r), v) = mk_trade inc p r v"
  by (simp add: trade_of_def)

definition forget :: "OrderIndex \<Rightarrow> OrderId set \<Rightarrow> OrderIndex" where
  "forget idx S = (\<lambda>i. if i \<in> S then None else idx i)"

lemma forget_simps [simp]:
  "forget idx {} = idx" "forget (idx(i := None)) S = forget idx (insert i S)"
  "forget (forget idx S) T = forget idx (S \<union> T)"
  by (auto simp: forget_def fun_eq_iff)

lemma match_level_fill:
  "match_level h inc p q level idx s =
     (case fill (\<lambda>_. True) q (map (Pair p) level) of
        (fs, q', es') \<Rightarrow> (q', map snd es', forget idx (exhausted fs), fold (\<lambda>f. h (trade_of inc f)) fs s))"
  by (induction level arbitrary: q idx s) (auto simp: o_def split: prod.splits)

lemma fill_level_prices:
  "fill ok q (map (Pair p) level) = (fs, q', es') \<Longrightarrow> map (Pair p) (map snd es') = es'"
  by (induction level arbitrary: q fs q' es') (auto split: if_splits prod.splits)

lemma fill_append:
  assumes "ok p"
  shows "fill ok q (map (Pair p) level @ es) =
    (case fill (\<lambda>_. True) q (map (Pair p) level) of
       (fs, q', es') \<Rightarrow>
         if es' = [] then (case fill ok q' es of (fs2, q2, es2) \<Rightarrow> (fs @ fs2, q2, es2))
         else (fs, q', es' @ es))"
  using assms
  by (induction level arbitrary: q) (auto split: prod.splits if_splits)

lemma exhausted_append [simp]: "exhausted (fs @ gs) = exhausted fs \<union> exhausted gs"
  by (simp add: exhausted_def image_Un)

text \<open>The matching loop computes the reference fill of the flattened book.\<close>

lemma Match_fill:
  assumes "fm_full book"
    and "fill (crosses (a_price inc)) q (fm_flatten book) = (fs, q', es')"
  shows "\<exists>book'. Match book inc q crosses h idx s =
      (q', book', forget idx (exhausted fs), fold (\<lambda>f. h (trade_of inc f)) fs s) \<and>
    fm_flatten book' = es'"
  using assms
proof (induction book arbitrary: q idx s fs)
  case Nil
  then show ?case by simp
next
  case (Cons pl book)
  obtain p level where pl: "pl = (p, level)" by (cases pl)
  obtain fs1 q1 es1 where f1: "fill (\<lambda>_. True) q (map (Pair p) level) = (fs1, q1, es1)"
    by (cases "fill (\<lambda>_. True) q (map (Pair p) level)")
  show ?case
  proof (cases "0 < q \<and> crosses (a_price inc) p")
    case False
    with Cons.prems show ?thesis
      by (cases level) (auto simp: pl)
  next
    case True
    show ?thesis
    proof (cases "es1 = []")
      case True
      obtain fs2 q2 es2 where f2: "fill (crosses (a_price inc)) q1 (fm_flatten book) = (fs2, q2, es2)"
        by (cases "fill (crosses (a_price inc)) q1 (fm_flatten book)")
      have eq: "fs = fs1 @ fs2" "q' = q2" "es' = es2"
        using Cons.prems(2) \<open>0 < q \<and> _\<close> True by (simp_all add: pl fill_append f1 f2)
      obtain book' where "Match book inc q1 crosses h (forget idx (exhausted fs1))
            (fold (\<lambda>f. h (trade_of inc f)) fs1 s) =
          (q2, book', forget (forget idx (exhausted fs1)) (exhausted fs2),
            fold (\<lambda>f. h (trade_of inc f)) fs2 (fold (\<lambda>f. h (trade_of inc f)) fs1 s))"
        and "fm_flatten book' = es2"
        using Cons.IH [where q = q1 and fs = fs2 and idx = "forget idx (exhausted fs1)"
            and s = "fold (\<lambda>f. h (trade_of inc f)) fs1 s"] Cons.prems(1) f2 eq
        by (auto simp: pl)
      then show ?thesis
        using \<open>0 < q \<and> _\<close> True by (simp add: pl match_level_fill f1 eq)
    next
      case False
      then show ?thesis
        using Cons.prems \<open>0 < q \<and> _\<close> fill_level_prices [OF f1]
        by (auto simp: pl match_level_fill f1 fill_append)
    qed
  qed
qed


section \<open>Facts about the reference fill\<close>

lemma diff_pos: "0 < q \<Longrightarrow> q < v \<Longrightarrow> 0 < v - (q :: Volume)"
  using num_diff_nonneg [of q v] by (metis diff_gt_0_iff_gt less_imp_le num_less num_sign(2))

lemma diff_nonneg: "0 \<le> v \<Longrightarrow> v \<le> q \<Longrightarrow> 0 \<le> q - (v :: Volume)"
  using num_diff_nonneg [of v q] by (metis diff_ge_0_iff_ge num_le num_sign(4))

definition positive :: "Entry list \<Rightarrow> bool" where
  "positive es \<longleftrightarrow> (\<forall>(p, r) \<in> set es. 0 < ro_volume r)"

lemma positive_simps [simp]:
  "positive []" "positive ((p, r) # es) \<longleftrightarrow> 0 < ro_volume r \<and> positive es"
  "positive (es @ es') \<longleftrightarrow> positive es \<and> positive es'"
  by (auto simp: positive_def)

text \<open>Every fill is for a positive volume, no more than the order has, at an acceptable price.\<close>

lemma fill_sound:
  "fill ok q es = (fs, q', es') \<Longrightarrow> positive es \<Longrightarrow> ((p, r), v) \<in> set fs \<Longrightarrow>
   (p, r) \<in> set es \<and> 0 < v \<and> v \<le> ro_volume r \<and> ok p"
  by (induction ok q es arbitrary: fs q' rule: fill.induct) (auto split: if_splits prod.splits)

lemma fill_positive: "fill ok q es = (fs, q', es') \<Longrightarrow> positive es \<Longrightarrow> positive es'"
  by (induction ok q es arbitrary: fs q' rule: fill.induct)
    (auto simp: not_le split: if_splits prod.splits intro: diff_pos)

lemma fill_remaining: "fill ok q es = (fs, q', es') \<Longrightarrow> positive es \<Longrightarrow> 0 \<le> q \<Longrightarrow> 0 \<le> q'"
  by (induction ok q es arbitrary: fs q' rule: fill.induct)
    (auto simp: less_imp_le diff_nonneg split: if_splits prod.splits)

text \<open>What is still wanted is wanted because nothing acceptable is left.\<close>

lemma fill_stop: "fill ok q es = (fs, q', es') \<Longrightarrow> 0 < q' \<Longrightarrow> es' = [] \<or> \<not> ok (fst (hd es'))"
  by (induction ok q es arbitrary: fs q' rule: fill.induct) (auto split: if_splits prod.splits)

text \<open>Volume is conserved, for the incoming order and for the book.\<close>

definition volume_of :: "Entry list \<Rightarrow> int" where
  "volume_of es = (\<Sum>(p, r)\<leftarrow>es. num (ro_volume r))"

definition filled :: "(Entry \<times> Volume) list \<Rightarrow> int" where
  "filled fs = (\<Sum>(e, v)\<leftarrow>fs. num v)"

lemma volume_simps [simp]:
  "volume_of [] = 0" "volume_of ((p, r) # es) = num (ro_volume r) + volume_of es"
  "volume_of (es @ es') = volume_of es + volume_of es'"
  "filled [] = 0" "filled ((e, v) # fs) = num v + filled fs"
  by (simp_all add: volume_of_def filled_def)

lemma fill_conserves:
  "fill ok q es = (fs, q', es') \<Longrightarrow> positive es \<Longrightarrow>
   filled fs + num q' = num q \<and> filled fs + volume_of es' = volume_of es"
proof (induction ok q es arbitrary: fs q' rule: fill.induct)
  case (2 ok q p r es)
  show ?case
  proof (cases "0 < q \<and> ok p")
    case True
    have d: "num (q - ro_volume r) = num q - num (ro_volume r)" if "ro_volume r \<le> q"
      using that 2(3) by (intro num_diff_nonneg) auto
    have d': "num (ro_volume r - q) = num (ro_volume r) - num q" if "\<not> ro_volume r \<le> q"
      using that True by (intro num_diff_nonneg) auto
    from True 2 d d' show ?thesis
      by (auto split: if_splits prod.splits)
  qed (use 2 in auto)
qed simp

text \<open>
  Price-time priority: the fills walk a prefix of the entries, every fill but the last uses its
  order up, and what is left is the rest of the entries, the first of them possibly reduced.
\<close>

definition priority_fill :: "Entry list \<Rightarrow> (Entry \<times> Volume) list \<Rightarrow> Entry list \<Rightarrow> bool" where
  "priority_fill es fs es' \<longleftrightarrow>
     map fst fs = take (length fs) es \<and>
     (\<forall>((p, r), v) \<in> set (butlast fs). v = ro_volume r) \<and>
     ((\<forall>((p, r), v) \<in> set fs. v = ro_volume r) \<and> es' = drop (length fs) es \<or>
      (\<exists>p r v. fs \<noteq> [] \<and> last fs = ((p, r), v) \<and> v < ro_volume r \<and>
         es' = (p, r\<lparr>ro_volume := ro_volume r - v\<rparr>) # drop (length fs) es))"

lemma fill_priority:
  "fill ok q es = (fs, q', es') \<Longrightarrow> priority_fill es fs es'"
proof (induction ok q es arbitrary: fs q' rule: fill.induct)
  case (2 ok q p r es)
  show ?case
  proof (cases "0 < q \<and> ok p \<and> ro_volume r \<le> q")
    case True
    obtain fs1 q1 es1 where f: "fill ok (q - ro_volume r) es = (fs1, q1, es1)"
      by (cases "fill ok (q - ro_volume r) es")
    with True 2 have "priority_fill es fs1 es'" and "fs = ((p, r), ro_volume r) # fs1"
      by auto
    then show ?thesis
      by (cases "fs1 = []") (auto simp: priority_fill_def)
  next
    case False
    with 2(2) show ?thesis
      by (auto simp: priority_fill_def not_le split: if_splits)
  qed
qed (simp add: priority_fill_def)

section \<open>The engine against the reference\<close>

text \<open>A book is well formed when it is sorted, has no empty level and no non-positive volume.\<close>

definition book_ok :: "(Price \<Rightarrow> Price \<Rightarrow> bool) \<Rightarrow> Book \<Rightarrow> bool" where
  "book_ok lt book \<longleftrightarrow> fm_sorted lt book \<and> fm_full book \<and> positive (fm_flatten book)"

lemma Match_shape:
  "Match book inc q crosses h idx s = (q', book', idx', s') \<Longrightarrow>
   (\<exists>pre. map fst book = pre @ map fst book') \<and> (fm_full book \<longrightarrow> fm_full book')"
proof (induction book arbitrary: q idx s)
  case (Cons pl book)
  obtain p level where pl: "pl = (p, level)" by (cases pl)
  obtain q1 level1 idx1 s1 where m: "match_level h inc p q level idx s = (q1, level1, idx1, s1)"
    by (cases "match_level h inc p q level idx s")
  show ?case
  proof (cases "0 < q \<and> crosses (a_price inc) p \<and> level1 = []")
    case True
    with Cons.prems m have "Match book inc q1 crosses h idx1 s1 = (q', book', idx', s')"
      by (simp add: pl)
    from Cons.IH [OF this] obtain pre where "map fst book = pre @ map fst book'"
      and "fm_full book \<longrightarrow> fm_full book'" by blast
    then show ?thesis by (auto simp: pl intro: exI [of _ "p # pre"])
  next
    case False
    with Cons.prems m show ?thesis
      by (auto simp: pl split: if_splits)
  qed
qed simp

lemma Match_correct:
  assumes "book_ok lt book"
    and "fill (crosses (a_price inc)) q (fm_flatten book) = (fs, q', es')"
  obtains book' where
    "Match book inc q crosses h idx s =
       (q', book', forget idx (exhausted fs), fold (\<lambda>f. h (trade_of inc f)) fs s)"
    and "fm_flatten book' = es'" and "book_ok lt book'" and "fm_keys book' \<subseteq> fm_keys book"
proof -
  from Match_fill [where crosses = crosses and inc = inc and h = h and idx = idx and s = s,
      OF _ assms(2)] assms(1) obtain book' where
    m: "Match book inc q crosses h idx s =
       (q', book', forget idx (exhausted fs), fold (\<lambda>f. h (trade_of inc f)) fs s)"
    and f: "fm_flatten book' = es'"
    by (auto simp: book_ok_def)
  from Match_shape [OF m] obtain pre where pre: "map fst book = pre @ map fst book'"
    and full: "fm_full book \<longrightarrow> fm_full book'" by blast
  have "positive es'"
    using fill_positive [OF assms(2)] assms(1) by (simp add: book_ok_def)
  moreover have "fm_sorted lt book'"
    using assms(1) pre by (auto simp: book_ok_def fm_sorted_def sorted_wrt_append)
  moreover have "fm_keys book' \<subseteq> fm_keys book"
    using arg_cong [OF pre, of set] by (auto simp: fm_keys_def)
  ultimately show thesis
    using that [OF m f] full f assms(1) by (auto simp: book_ok_def)
qed

text \<open>
  The reference state of an instrument: the two sides as lists of entries in priority order.
  An incoming order is filled against the opposite side; what remains joins its own side behind
  every order of the same or a better price.
\<close>

record Spec_Book =
  sb_bids :: "Entry list"
  sb_asks :: "Entry list"

definition abs_engine :: "MatchingEngine \<Rightarrow> Spec_Book" where
  "abs_engine e = \<lparr>sb_bids = fm_flatten (me_bids e), sb_asks = fm_flatten (me_asks e)\<rparr>"

definition entry_of :: "OrderAdd \<Rightarrow> Volume \<Rightarrow> Entry" where
  "entry_of order q =
     (a_price order, \<lparr>ro_orderId = a_orderId order, ro_userId = a_userId order, ro_volume = q\<rparr>)"

definition spec_add :: "OrderAdd \<Rightarrow> Spec_Book \<Rightarrow> Spec_Book \<times> Trade list" where
  "spec_add order b =
     (case a_side order of
        Buy \<Rightarrow>
          (case fill (\<lambda>p. p \<le> a_price order) (a_volume order) (sb_asks b) of
             (fs, q, es) \<Rightarrow>
               (\<lparr>sb_bids = (if 0 < q then stable_insert greater (entry_of order q) (sb_bids b) else sb_bids b),
                 sb_asks = es\<rparr>, map (trade_of order) fs))
      | Sell \<Rightarrow>
          (case fill (\<lambda>p. a_price order \<le> p) (a_volume order) (sb_bids b) of
             (fs, q, es) \<Rightarrow>
               (\<lparr>sb_bids = es,
                 sb_asks = (if 0 < q then stable_insert (<) (entry_of order q) (sb_asks b) else sb_asks b)\<rparr>,
                map (trade_of order) fs)))"

definition engine_books_ok :: "MatchingEngine \<Rightarrow> bool" where
  "engine_books_ok e \<longleftrightarrow> book_ok greater (me_bids e) \<and> book_ok (<) (me_asks e)"

lemma UpdateMidPrice_frame [simp]:
  "me_bids (UpdateMidPrice e) = me_bids e" "me_asks (UpdateMidPrice e) = me_asks e"
  "me_orderIndex (UpdateMidPrice e) = me_orderIndex e"
  by (auto simp: UpdateMidPrice_def split: list.splits)

lemma Rest_simps [simp]:
  "me_bids (Rest order q e) =
     (if a_side order = Buy
      then fm_subscript greater (a_price order) [] (\<lambda>l. l @ [snd (entry_of order q)]) (me_bids e)
      else me_bids e)"
  "me_asks (Rest order q e) =
     (if a_side order = Buy then me_asks e
      else fm_subscript (<) (a_price order) [] (\<lambda>l. l @ [snd (entry_of order q)]) (me_asks e))"
  "me_orderIndex (Rest order q e) = (me_orderIndex e)(a_orderId order \<mapsto>
     \<lparr>ol_side = a_side order, ol_price = a_price order, ol_userId = a_userId order\<rparr>)"
  "me_midPrice (Rest order q e) = me_midPrice e"
  by (simp_all add: Rest_def Let_def entry_of_def)

lemma entry_of_pair: "(a_price order, snd (entry_of order q)) = entry_of order q"
  by (simp add: entry_of_def)

text \<open>The handler of an incoming order, branch by branch.\<close>

lemma OnOrderAdd_Buy:
  assumes "engine_books_ok e" and "a_side order = Buy"
    and "fill (\<lambda>p. p \<le> a_price order) (a_volume order) (fm_flatten (me_asks e)) = (fs, q, es)"
  obtains asks e' where
    "OnOrderAdd order h e s =
       (UpdateMidPrice (if 0 < q then Rest order q e' else e'), fold h (map (trade_of order) fs) s)"
    and "e' = e\<lparr>me_asks := asks, me_orderIndex := forget (me_orderIndex e) (exhausted fs)\<rparr>"
    and "fm_flatten asks = es" and "book_ok (<) asks" and "fm_keys asks \<subseteq> fm_keys (me_asks e)"
proof -
  from assms(1) have "book_ok (<) (me_asks e)" by (simp add: engine_books_ok_def)
  from Match_correct [OF this, where crosses = "\<lambda>x y. y \<le> x" and inc = order and h = h
      and idx = "me_orderIndex e" and s = s, OF assms(3)]
  obtain asks where "Match (me_asks e) order (a_volume order) (\<lambda>x y. y \<le> x) h (me_orderIndex e) s =
      (q, asks, forget (me_orderIndex e) (exhausted fs), fold (\<lambda>f. h (trade_of order f)) fs s)"
    and *: "fm_flatten asks = es" "book_ok (<) asks" "fm_keys asks \<subseteq> fm_keys (me_asks e)" .
  then have "OnOrderAdd order h e s =
      (UpdateMidPrice (if 0 < q then Rest order q (e\<lparr>me_asks := asks, me_orderIndex := forget (me_orderIndex e) (exhausted fs)\<rparr>)
         else e\<lparr>me_asks := asks, me_orderIndex := forget (me_orderIndex e) (exhausted fs)\<rparr>),
       fold h (map (trade_of order) fs) s)"
    using assms(2) by (simp add: OnOrderAdd_def Let_def fold_map o_def)
  from that [OF this refl *] show thesis .
qed

lemma OnOrderAdd_Sell:
  assumes "engine_books_ok e" and "a_side order = Sell"
    and "fill (\<lambda>p. a_price order \<le> p) (a_volume order) (fm_flatten (me_bids e)) = (fs, q, es)"
  obtains bids e' where
    "OnOrderAdd order h e s =
       (UpdateMidPrice (if 0 < q then Rest order q e' else e'), fold h (map (trade_of order) fs) s)"
    and "e' = e\<lparr>me_bids := bids, me_orderIndex := forget (me_orderIndex e) (exhausted fs)\<rparr>"
    and "fm_flatten bids = es" and "book_ok greater bids" and "fm_keys bids \<subseteq> fm_keys (me_bids e)"
proof -
  from assms(1) have "book_ok greater (me_bids e)" by (simp add: engine_books_ok_def)
  from Match_correct [OF this, where crosses = "(\<le>)" and inc = order and h = h
      and idx = "me_orderIndex e" and s = s, OF assms(3)]
  obtain bids where "Match (me_bids e) order (a_volume order) (\<le>) h (me_orderIndex e) s =
      (q, bids, forget (me_orderIndex e) (exhausted fs), fold (\<lambda>f. h (trade_of order f)) fs s)"
    and *: "fm_flatten bids = es" "book_ok greater bids" "fm_keys bids \<subseteq> fm_keys (me_bids e)" .
  then have "OnOrderAdd order h e s =
      (UpdateMidPrice (if 0 < q then Rest order q (e\<lparr>me_bids := bids, me_orderIndex := forget (me_orderIndex e) (exhausted fs)\<rparr>)
         else e\<lparr>me_bids := bids, me_orderIndex := forget (me_orderIndex e) (exhausted fs)\<rparr>),
       fold h (map (trade_of order) fs) s)"
    using assms(2) by (simp add: OnOrderAdd_def Let_def fold_map o_def)
  from that [OF this refl *] show thesis .
qed

lemma OnOrderAdd_refines:
  assumes "engine_books_ok e"
  shows "abs_engine (fst (OnOrderAdd order h e s)) = fst (spec_add order (abs_engine e))"
    and "snd (OnOrderAdd order h e s) = fold h (snd (spec_add order (abs_engine e))) s"
proof -
  have *: "abs_engine (fst (OnOrderAdd order h e s)) = fst (spec_add order (abs_engine e)) \<and>
    snd (OnOrderAdd order h e s) = fold h (snd (spec_add order (abs_engine e))) s"
  proof (cases "a_side order")
    case Buy
    obtain fs q es where f: "fill (\<lambda>p. p \<le> a_price order) (a_volume order) (fm_flatten (me_asks e)) = (fs, q, es)"
      by (rule prod_cases3)
    from assms Buy f obtain asks e' where "OnOrderAdd order h e s =
       (UpdateMidPrice (if 0 < q then Rest order q e' else e'), fold h (map (trade_of order) fs) s)"
      and "e' = e\<lparr>me_asks := asks, me_orderIndex := forget (me_orderIndex e) (exhausted fs)\<rparr>"
      and "fm_flatten asks = es"
      by (rule OnOrderAdd_Buy)
    then show ?thesis
      using Buy f assms fm_greater.flatten_subscript [of "me_bids e" "a_price order" "snd (entry_of order q)"]
      by (simp add: abs_engine_def spec_add_def engine_books_ok_def book_ok_def entry_of_pair)
  next
    case Sell
    obtain fs q es where f: "fill (\<lambda>p. a_price order \<le> p) (a_volume order) (fm_flatten (me_bids e)) = (fs, q, es)"
      by (rule prod_cases3)
    from assms Sell f obtain bids e' where "OnOrderAdd order h e s =
       (UpdateMidPrice (if 0 < q then Rest order q e' else e'), fold h (map (trade_of order) fs) s)"
      and "e' = e\<lparr>me_bids := bids, me_orderIndex := forget (me_orderIndex e) (exhausted fs)\<rparr>"
      and "fm_flatten bids = es"
      by (rule OnOrderAdd_Sell)
    then show ?thesis
      using Sell f assms fm_less.flatten_subscript [of "me_asks e" "a_price order" "snd (entry_of order q)"]
      by (simp add: abs_engine_def spec_add_def engine_books_ok_def book_ok_def entry_of_pair)
  qed
  from * show "abs_engine (fst (OnOrderAdd order h e s)) = fst (spec_add order (abs_engine e))" by blast
  from * show "snd (OnOrderAdd order h e s) = fold h (snd (spec_add order (abs_engine e))) s" by blast
qed

end
