(* ===== verification/Engine_Invariants.thy ===== *)
theory Engine_Invariants
  imports Engine_Spec
begin

text \<open>
  What holds of the engine between requests. \<open>engine_inv\<close>: both books are sorted, have no empty
  level and no non-positive volume, do not cross, and the published mid price is that of the top of
  book. \<open>index_ok\<close>: order ids are unique in the book and the index locates exactly the resting orders;
  it needs that no live order id is reused, and carries the refinement of cancels. The facts
  about one side are proved once, in the locale \<open>price_book\<close>, for both comparators.
\<close>

section \<open>One side of the book\<close>

lemma book_ok_Nil [simp]: "book_ok lt []"
  by (simp add: book_ok_def)

lemma positive_stable_insert [simp]:
  "positive (stable_insert lt (p, r) es) \<longleftrightarrow> 0 < ro_volume r \<and> positive es"
  by (simp add: positive_def)

context comparator
begin

lemma full_subscript:
  "fm_sorted lt m \<Longrightarrow> fm_full m \<Longrightarrow> f (case map_of m k of None \<Rightarrow> [] | Some xs \<Rightarrow> xs) \<noteq> [] \<Longrightarrow>
   fm_full (fm_subscript lt k [] f m)"
  using full_iff_map_of [of m] full_iff_map_of [OF sorted_subscript [of m k "[]" f]]
  by (auto simp: map_of_subscript split: if_splits)

lemma full_erase:
  "fm_sorted lt m \<Longrightarrow> (\<And>k' xs. k' \<noteq> k \<Longrightarrow> map_of m k' = Some xs \<Longrightarrow> xs \<noteq> []) \<Longrightarrow>
   fm_full (fm_erase lt k m)"
  using full_iff_map_of [OF sorted_erase [of m k]]
  by (auto simp: map_of_erase split: if_splits)

end

text \<open>
  The operations on a book under either price comparator: they keep the book well formed and act
  on its entries as the reference says.
\<close>

locale price_book = comparator lt for lt :: "Price \<Rightarrow> Price \<Rightarrow> bool"
begin

lemma insert_ok:
  assumes "book_ok lt book" and "0 < ro_volume r"
  shows "book_ok lt (fm_subscript lt p [] (\<lambda>l. l @ [r]) book)"
  using assms by (simp add: book_ok_def sorted_subscript full_subscript flatten_subscript)

lemma erase_flatten:
  assumes "fm_sorted lt book"
  shows "fm_flatten (EraseFromBook lt book price i) =
    filter (\<lambda>(p, r). p = price \<longrightarrow> ro_orderId r \<noteq> i) (fm_flatten book)"
proof (cases "map_of book price")
  case None
  then have "filter (\<lambda>(p, r). p = price \<longrightarrow> ro_orderId r \<noteq> i) (fm_flatten book) = fm_flatten book"
    using fm_flatten_keys [of _ _ book] by (auto simp: filter_id_conv map_of_None_keys)
  with None show ?thesis
    by (simp add: EraseFromBook_def find_eq_map_of [OF assms])
next
  case (Some level)
  let ?l = "filter (\<lambda>r. ro_orderId r \<noteq> i) level"
  let ?b = "fm_subscript lt price [] (\<lambda>_. ?l) book"
  have "fm_sorted lt ?b" and "map_of ?b price = Some ?l"
    by (simp_all add: sorted_subscript map_of_subscript assms)
  then show ?thesis
    using flatten_filter_level [OF assms Some, of "\<lambda>r. ro_orderId r \<noteq> i"]
      flatten_erase_empty [of ?b price]
    by (auto simp: EraseFromBook_def Let_def find_eq_map_of [OF assms] Some)
qed

lemma erase_shape:
  assumes "fm_sorted lt book" and "fm_full book"
  shows "fm_sorted lt (EraseFromBook lt book price i) \<and> fm_full (EraseFromBook lt book price i)"
proof (cases "map_of book price")
  case None
  then show ?thesis
    using assms by (simp add: EraseFromBook_def find_eq_map_of)
next
  case (Some level)
  let ?l = "filter (\<lambda>r. ro_orderId r \<noteq> i) level"
  let ?c = "fm_subscript lt price [] (\<lambda>_. ?l) book"
  have s: "fm_sorted lt ?c"
    by (rule sorted_subscript [OF assms(1)])
  have "fm_full (fm_erase lt price ?c)"
    using assms full_iff_map_of [OF assms(1)]
    by (intro full_erase [OF s]) (auto simp: map_of_subscript split: if_splits)
  moreover have "fm_full ?c" if "?l \<noteq> []"
    using full_subscript [OF assms, of "\<lambda>_. ?l" price] that by simp
  ultimately show ?thesis
    using s sorted_erase [OF s]
    by (auto simp: EraseFromBook_def Let_def find_eq_map_of [OF assms(1)] Some)
qed

lemma erase_ok:
  assumes "book_ok lt book"
  shows "book_ok lt (EraseFromBook lt book price i)"
  using assms erase_shape [of book price i]
  by (auto simp: book_ok_def erase_flatten positive_def)

lemma erase_keys:
  assumes "book_ok lt book"
  shows "fm_keys (EraseFromBook lt book price i) \<subseteq> fm_keys book"
proof -
  have "fm_keys (fm_flatten (EraseFromBook lt book price i)) \<subseteq> fm_keys (fm_flatten book)"
    using assms by (auto simp: book_ok_def erase_flatten fm_keys_def)
  then show ?thesis
    using assms erase_ok [OF assms] by (simp add: book_ok_def fm_flatten_keys_eq)
qed

text \<open>If the first entry is not acceptable and worse prices are not either, none is.\<close>

lemma none_acceptable:
  assumes "book_ok lt book" and "fm_flatten book = [] \<or> \<not> ok (fst (hd (fm_flatten book)))"
    and "\<And>p p'. \<not> ok p \<Longrightarrow> lt p p' \<Longrightarrow> \<not> ok p'" and "a \<in> fm_keys book"
  shows "\<not> ok a"
proof -
  obtain p l rest where b: "book = (p, l) # rest"
    using assms(4) by (cases book) auto
  then have "\<not> ok p"
    using assms(1,2) by (cases l) (auto simp: book_ok_def)
  then show ?thesis
    using begin_least [of p l rest a] assms(1,3,4) by (auto simp: b book_ok_def)
qed

end

interpretation bid_book: price_book greater
  by unfold_locales

interpretation ask_book: price_book "(<)"
  by unfold_locales

section \<open>The invariant of an engine\<close>

text \<open>
  No resting bid reaches a resting ask, and whenever a side has an order the published mid price
  is the one of the current top of book.
\<close>

definition uncrossed :: "MatchingEngine \<Rightarrow> bool" where
  "uncrossed e \<longleftrightarrow> (\<forall>b \<in> fm_keys (me_bids e). \<forall>a \<in> fm_keys (me_asks e). b < a)"

definition top_mid :: "MatchingEngine \<Rightarrow> Price option" where
  "top_mid e =
     (case (me_bids e, me_asks e) of
        ((bid, _) # _, (ask, _) # _) \<Rightarrow> Some (StrongType (i64_div (raw bid + raw ask) (i64 2)))
      | ((bid, _) # _, []) \<Rightarrow> Some bid
      | ([], (ask, _) # _) \<Rightarrow> Some ask
      | ([], []) \<Rightarrow> None)"

definition mid_ok :: "MatchingEngine \<Rightarrow> bool" where
  "mid_ok e \<longleftrightarrow> settled (me_midPrice e) \<and> (top_mid e \<noteq> None \<longrightarrow> sl_value (me_midPrice e) = top_mid e)"

definition engine_inv :: "MatchingEngine \<Rightarrow> bool" where
  "engine_inv e \<longleftrightarrow> engine_books_ok e \<and> uncrossed e \<and> mid_ok e"

lemma engine_inv_new: "engine_inv new_MatchingEngine"
  by (simp add: engine_inv_def engine_books_ok_def uncrossed_def mid_ok_def top_mid_def new_MatchingEngine_def)

lemma UpdateMidPrice_mid:
  assumes "settled (me_midPrice e)"
  shows "mid_ok (UpdateMidPrice e)"
    and "sl_value (me_midPrice (UpdateMidPrice e)) =
      (case top_mid e of None \<Rightarrow> sl_value (me_midPrice e) | Some m \<Rightarrow> Some m)"
  using assms by (auto simp: UpdateMidPrice_def mid_ok_def top_mid_def split: list.splits)

lemma UpdateMidPrice_inv:
  "engine_books_ok e \<Longrightarrow> uncrossed e \<Longrightarrow> settled (me_midPrice e) \<Longrightarrow> engine_inv (UpdateMidPrice e)"
  by (simp add: engine_inv_def engine_books_ok_def uncrossed_def UpdateMidPrice_mid)

lemma OnOrderAdd_inv:
  assumes "engine_inv e"
  shows "engine_inv (fst (OnOrderAdd order h e s))"
proof (cases "a_side order")
  case Buy
  have books: "engine_books_ok e" using assms by (simp add: engine_inv_def)
  obtain fs q es where f: "fill (\<lambda>p. p \<le> a_price order) (a_volume order) (fm_flatten (me_asks e)) = (fs, q, es)"
    by (rule prod_cases3)
  from books Buy f obtain asks e' where
    r: "OnOrderAdd order h e s =
      (UpdateMidPrice (if 0 < q then Rest order q e' else e'), fold h (map (trade_of order) fs) s)"
    and e': "e' = e\<lparr>me_asks := asks, me_orderIndex := forget (me_orderIndex e) (exhausted fs)\<rparr>"
    and fl: "fm_flatten asks = es" and ok: "book_ok (<) asks"
    and keys: "fm_keys asks \<subseteq> fm_keys (me_asks e)"
    by (rule OnOrderAdd_Buy)
  have above: "a_price order < a" if "0 < q" "a \<in> fm_keys asks" for a
  proof -
    have "\<not> a \<le> a_price order"
      by (rule ask_book.none_acceptable [OF ok]) (use fill_stop [OF f that(1)] fl that(2) in auto)
    then show ?thesis by simp
  qed
  show ?thesis
    unfolding r fst_conv
    using assms Buy keys above ok bid_book.insert_ok [of "me_bids e" "snd (entry_of order q)" "a_price order"]
    by (intro UpdateMidPrice_inv)
      (auto simp: engine_inv_def engine_books_ok_def uncrossed_def mid_ok_def e' entry_of_def
        fm_greater.keys_subscript)
next
  case Sell
  have books: "engine_books_ok e" using assms by (simp add: engine_inv_def)
  obtain fs q es where f: "fill (\<lambda>p. a_price order \<le> p) (a_volume order) (fm_flatten (me_bids e)) = (fs, q, es)"
    by (rule prod_cases3)
  from books Sell f obtain bids e' where
    r: "OnOrderAdd order h e s =
      (UpdateMidPrice (if 0 < q then Rest order q e' else e'), fold h (map (trade_of order) fs) s)"
    and e': "e' = e\<lparr>me_bids := bids, me_orderIndex := forget (me_orderIndex e) (exhausted fs)\<rparr>"
    and fl: "fm_flatten bids = es" and ok: "book_ok greater bids"
    and keys: "fm_keys bids \<subseteq> fm_keys (me_bids e)"
    by (rule OnOrderAdd_Sell)
  have below: "b < a_price order" if "0 < q" "b \<in> fm_keys bids" for b
  proof -
    have "\<not> a_price order \<le> b"
      by (rule bid_book.none_acceptable [OF ok]) (use fill_stop [OF f that(1)] fl that(2) in auto)
    then show ?thesis by simp
  qed
  show ?thesis
    unfolding r fst_conv
    using assms Sell keys below ok ask_book.insert_ok [of "me_asks e" "snd (entry_of order q)" "a_price order"]
    by (intro UpdateMidPrice_inv)
      (auto simp: engine_inv_def engine_books_ok_def uncrossed_def mid_ok_def e' entry_of_def
        fm_less.keys_subscript)
qed

lemma OnOrderCancel_accepted:
  assumes "me_orderIndex e (c_orderId cancel) = Some loc" and "ol_userId loc = c_userId cancel"
  shows "OnOrderCancel cancel e = UpdateMidPrice
    (e\<lparr>me_bids := (if ol_side loc = Buy
                    then EraseFromBook greater (me_bids e) (ol_price loc) (c_orderId cancel) else me_bids e),
      me_asks := (if ol_side loc = Buy then me_asks e
                  else EraseFromBook (<) (me_asks e) (ol_price loc) (c_orderId cancel)),
      me_orderIndex := (me_orderIndex e)(c_orderId cancel := None)\<rparr>)"
  using assms by (simp add: OnOrderCancel_def Let_def)

lemma OnOrderCancel_rejected:
  assumes "\<And>loc. me_orderIndex e (c_orderId cancel) = Some loc \<Longrightarrow> ol_userId loc \<noteq> c_userId cancel"
  shows "OnOrderCancel cancel e = e"
  using assms by (auto simp: OnOrderCancel_def split: option.splits)

lemma OnOrderCancel_inv:
  assumes "engine_inv e"
  shows "engine_inv (OnOrderCancel cancel e)"
proof (cases "\<exists>loc. me_orderIndex e (c_orderId cancel) = Some loc \<and> ol_userId loc = c_userId cancel")
  case True
  then obtain loc where "me_orderIndex e (c_orderId cancel) = Some loc" "ol_userId loc = c_userId cancel"
    by blast
  note * = OnOrderCancel_accepted [OF this]
  show ?thesis
    unfolding *
    using assms bid_book.erase_ok [of "me_bids e" "ol_price loc" "c_orderId cancel"]
      bid_book.erase_keys [of "me_bids e" "ol_price loc" "c_orderId cancel"]
      ask_book.erase_ok [of "me_asks e" "ol_price loc" "c_orderId cancel"]
      ask_book.erase_keys [of "me_asks e" "ol_price loc" "c_orderId cancel"]
    by (intro UpdateMidPrice_inv) (auto simp: engine_inv_def engine_books_ok_def uncrossed_def mid_ok_def)
next
  case False
  then have "OnOrderCancel cancel e = e" by (intro OnOrderCancel_rejected) blast
  with assms show ?thesis by simp
qed

section \<open>The order index\<close>

text \<open>
  When no two resting orders share an id, the index is the map from ids to the places of the
  resting orders. Ids come from the clients, so this is an invariant of runs that use fresh ids.
\<close>

definition located :: "Side \<Rightarrow> Entry list \<Rightarrow> (OrderId \<times> OrderLocation) list" where
  "located side es =
     map (\<lambda>(p, r). (ro_orderId r, \<lparr>ol_side = side, ol_price = p, ol_userId = ro_userId r\<rparr>)) es"

definition locations :: "Spec_Book \<Rightarrow> (OrderId \<times> OrderLocation) list" where
  "locations b = located Buy (sb_bids b) @ located Sell (sb_asks b)"

definition index_ok :: "MatchingEngine \<Rightarrow> bool" where
  "index_ok e \<longleftrightarrow>
     distinct (map fst (locations (abs_engine e))) \<and>
     me_orderIndex e = map_of (locations (abs_engine e))"

lemma located_simps [simp]:
  "located side [] = []"
  "located side ((p, r) # es) =
     (ro_orderId r, \<lparr>ol_side = side, ol_price = p, ol_userId = ro_userId r\<rparr>) # located side es"
  "located side (es @ es') = located side es @ located side es'"
  by (simp_all add: located_def)

lemma fill_located:
  "fill ok q es = (fs, q', es') \<Longrightarrow>
   \<exists>gone. located side es = gone @ located side es' \<and> fst ` set gone = exhausted fs"
proof (induction ok q es arbitrary: fs q' rule: fill.induct)
  case (2 ok q p r es)
  show ?case
  proof (cases "0 < q \<and> ok p \<and> ro_volume r \<le> q")
    case True
    obtain fs1 q1 es1 where f: "fill ok (q - ro_volume r) es = (fs1, q1, es1)"
      by (rule prod_cases3)
    with True 2(1) [of fs1 q1] 2(2) obtain gone where
      "located side es = gone @ located side es'" "fst ` set gone = exhausted fs1"
      and "fs = ((p, r), ro_volume r) # fs1"
      by auto
    then show ?thesis
      by (auto intro!: exI [of _ "(ro_orderId r, \<lparr>ol_side = side, ol_price = p, ol_userId = ro_userId r\<rparr>) # gone"])
  next
    case False
    with 2(2) show ?thesis by (auto split: if_splits)
  qed
qed simp

lemma map_of_remove_middle:
  assumes "distinct (map fst (xs @ gone @ ys))"
  shows "(\<lambda>i. if i \<in> fst ` set gone then None else map_of (xs @ gone @ ys) i) = map_of (xs @ ys)"
proof
  fix i
  show "(if i \<in> fst ` set gone then None else map_of (xs @ gone @ ys) i) = map_of (xs @ ys) i"
    using assms map_of_eq_None_iff [of xs i] map_of_eq_None_iff [of ys i] map_of_eq_None_iff [of gone i]
    by (auto simp: map_add_def split: option.splits)
qed

lemma map_of_insert_middle:
  assumes "i \<notin> fst ` set (xs @ ys)"
  shows "map_of (xs @ (i, v) # ys) = (map_of (xs @ ys))(i \<mapsto> v)"
  using assms map_of_eq_None_iff [of xs i]
  by (auto simp: fun_eq_iff map_add_def split: option.splits)

lemma stable_insert_split:
  obtains xs ys where "es = xs @ ys" and "stable_insert lt e es = xs @ e # ys"
  by (rule that [of "takeWhile (\<lambda>y. \<not> lt (fst e) (fst y)) es" "dropWhile (\<lambda>y. \<not> lt (fst e) (fst y)) es"])
    (simp_all add: stable_insert_def)

text \<open>The index after the two ways an incoming order changes a list of locations.\<close>

lemma index_fill_step:
  assumes "distinct (map fst (xs @ gone @ ys))" and "idx = map_of (xs @ gone @ ys)" and "S = fst ` set gone"
  shows "distinct (map fst (xs @ ys)) \<and> forget idx S = map_of (xs @ ys)"
proof -
  have "forget idx S = map_of (xs @ ys)"
    unfolding forget_def assms(2,3) by (rule map_of_remove_middle [OF assms(1)])
  then show ?thesis using assms(1) by auto
qed

lemma index_rest_step:
  assumes "distinct (map fst (us @ vs)) \<and> idx = map_of (us @ vs)" and "i \<notin> fst ` set (us @ vs)"
  shows "distinct (map fst (us @ (i, v) # vs)) \<and> idx(i \<mapsto> v) = map_of (us @ (i, v) # vs)"
  using assms map_of_insert_middle [OF assms(2), of v] by auto

lemma OnOrderAdd_index_Buy:
  assumes "engine_books_ok e" and "index_ok e" and "me_orderIndex e (a_orderId order) = None"
    and Buy: "a_side order = Buy"
  shows "index_ok (fst (OnOrderAdd order h e s))"
proof -
  let ?b = "abs_engine e" and ?i = "a_orderId order"
  let ?loc = "\<lparr>ol_side = a_side order, ol_price = a_price order, ol_userId = a_userId order\<rparr>"
  have d: "distinct (map fst (locations ?b))" and idx: "me_orderIndex e = map_of (locations ?b)"
    using assms(2) by (auto simp: index_ok_def)
  obtain fs q es where f: "fill (\<lambda>p. p \<le> a_price order) (a_volume order) (fm_flatten (me_asks e)) = (fs, q, es)"
    by (rule prod_cases3)
  from assms(1) Buy f obtain asks e' where r: "OnOrderAdd order h e s =
     (UpdateMidPrice (if 0 < q then Rest order q e' else e'), fold h (map (trade_of order) fs) s)"
    and e': "e' = e\<lparr>me_asks := asks, me_orderIndex := forget (me_orderIndex e) (exhausted fs)\<rparr>"
    by (rule OnOrderAdd_Buy)
  obtain gone where g: "located Sell (sb_asks ?b) = gone @ located Sell es" "fst ` set gone = exhausted fs"
    using fill_located [OF f, of Sell] by (auto simp: abs_engine_def)
  obtain us vs where uv: "sb_bids ?b = us @ vs"
    "stable_insert greater (entry_of order q) (sb_bids ?b) = us @ entry_of order q # vs"
    by (rule stable_insert_split)
  have l: "locations ?b = located Buy (sb_bids ?b) @ gone @ located Sell es"
    by (simp add: locations_def g)
  let ?us = "located Buy us" and ?vs = "located Buy vs @ located Sell es"
  note filled = index_fill_step [OF d [unfolded l] idx [unfolded l] g(2) [symmetric]]
  have rested: "distinct (map fst (?us @ (?i, ?loc) # ?vs)) \<and>
      (forget (me_orderIndex e) (exhausted fs))(?i \<mapsto> ?loc) = map_of (?us @ (?i, ?loc) # ?vs)"
    using filled assms(3) unfolding idx map_of_eq_None_iff by (intro index_rest_step) (auto simp: uv(1) l)
  have "locations (abs_engine (fst (OnOrderAdd order h e s))) =
      (if 0 < q then ?us @ (?i, ?loc) # ?vs else located Buy (sb_bids ?b) @ located Sell es)"
    using OnOrderAdd_refines(1) [OF assms(1), of order h s] f Buy uv
    by (simp add: spec_add_def locations_def abs_engine_def entry_of_def)
  then show ?thesis
    using filled rested by (simp add: index_ok_def r e')
qed

lemma OnOrderAdd_index_Sell:
  assumes "engine_books_ok e" and "index_ok e" and "me_orderIndex e (a_orderId order) = None"
    and Sell: "a_side order = Sell"
  shows "index_ok (fst (OnOrderAdd order h e s))"
proof -
  let ?b = "abs_engine e" and ?i = "a_orderId order"
  let ?loc = "\<lparr>ol_side = a_side order, ol_price = a_price order, ol_userId = a_userId order\<rparr>"
  have d: "distinct (map fst (locations ?b))" and idx: "me_orderIndex e = map_of (locations ?b)"
    using assms(2) by (auto simp: index_ok_def)
  obtain fs q es where f: "fill (\<lambda>p. a_price order \<le> p) (a_volume order) (fm_flatten (me_bids e)) = (fs, q, es)"
    by (rule prod_cases3)
  from assms(1) Sell f obtain bids e' where r: "OnOrderAdd order h e s =
     (UpdateMidPrice (if 0 < q then Rest order q e' else e'), fold h (map (trade_of order) fs) s)"
    and e': "e' = e\<lparr>me_bids := bids, me_orderIndex := forget (me_orderIndex e) (exhausted fs)\<rparr>"
    by (rule OnOrderAdd_Sell)
  obtain gone where g: "located Buy (sb_bids ?b) = gone @ located Buy es" "fst ` set gone = exhausted fs"
    using fill_located [OF f, of Buy] by (auto simp: abs_engine_def)
  obtain us vs where uv: "sb_asks ?b = us @ vs"
    "stable_insert (<) (entry_of order q) (sb_asks ?b) = us @ entry_of order q # vs"
    by (rule stable_insert_split)
  have l: "locations ?b = [] @ gone @ (located Buy es @ located Sell (sb_asks ?b))"
    by (simp add: locations_def g)
  let ?us = "located Buy es @ located Sell us" and ?vs = "located Sell vs"
  note filled = index_fill_step [OF d [unfolded l] idx [unfolded l] g(2) [symmetric]]
  have rested: "distinct (map fst (?us @ (?i, ?loc) # ?vs)) \<and>
      (forget (me_orderIndex e) (exhausted fs))(?i \<mapsto> ?loc) = map_of (?us @ (?i, ?loc) # ?vs)"
    using filled assms(3) unfolding idx map_of_eq_None_iff by (intro index_rest_step) (auto simp: uv(1) l)
  have "locations (abs_engine (fst (OnOrderAdd order h e s))) =
      (if 0 < q then ?us @ (?i, ?loc) # ?vs else located Buy es @ located Sell (sb_asks ?b))"
    using OnOrderAdd_refines(1) [OF assms(1), of order h s] f Sell uv
    by (simp add: spec_add_def locations_def abs_engine_def entry_of_def)
  then show ?thesis
    using filled rested by (simp add: index_ok_def r e')
qed

lemma OnOrderAdd_index:
  assumes "engine_books_ok e" and "index_ok e" and "me_orderIndex e (a_orderId order) = None"
  shows "index_ok (fst (OnOrderAdd order h e s))"
  using OnOrderAdd_index_Buy [OF assms] OnOrderAdd_index_Sell [OF assms] by (cases "a_side order") auto

section \<open>Cancelling\<close>

text \<open>The reference cancel takes the caller's order with that id off the book, if there is one.\<close>

definition cancels :: "OrderCancel \<Rightarrow> Entry \<Rightarrow> bool" where
  "cancels c en \<longleftrightarrow> ro_orderId (snd en) = c_orderId c \<and> ro_userId (snd en) = c_userId c"

definition spec_cancel :: "OrderCancel \<Rightarrow> Spec_Book \<Rightarrow> Spec_Book" where
  "spec_cancel c b =
     \<lparr>sb_bids = filter (\<lambda>en. \<not> cancels c en) (sb_bids b), sb_asks = filter (\<lambda>en. \<not> cancels c en) (sb_asks b)\<rparr>"

lemma located_mem:
  "(p, r) \<in> set es \<Longrightarrow>
   (ro_orderId r, \<lparr>ol_side = side, ol_price = p, ol_userId = ro_userId r\<rparr>) \<in> set (located side es)"
  by (force simp: located_def)

lemma entry_located:
  assumes "distinct (map fst (locations b))"
    and "side = Buy \<and> (p, r) \<in> set (sb_bids b) \<or> side = Sell \<and> (p, r) \<in> set (sb_asks b)"
  shows "map_of (locations b) (ro_orderId r) = Some \<lparr>ol_side = side, ol_price = p, ol_userId = ro_userId r\<rparr>"
  using assms located_mem [of p r] by (intro map_of_is_SomeI) (auto simp: locations_def)

lemma entry_index:
  assumes "index_ok e"
  shows "(p, r) \<in> set (sb_bids (abs_engine e)) \<Longrightarrow>
      me_orderIndex e (ro_orderId r) = Some \<lparr>ol_side = Buy, ol_price = p, ol_userId = ro_userId r\<rparr>"
    and "(p, r) \<in> set (sb_asks (abs_engine e)) \<Longrightarrow>
      me_orderIndex e (ro_orderId r) = Some \<lparr>ol_side = Sell, ol_price = p, ol_userId = ro_userId r\<rparr>"
  using assms entry_located [of "abs_engine e"] unfolding index_ok_def by metis+

lemma map_of_filter_key: "map_of (filter (\<lambda>x. fst x \<noteq> i) xs) = (map_of xs)(i := None)"
  by (induction xs) auto

lemma located_filter: "located side (filter (\<lambda>en. ro_orderId (snd en) \<noteq> i) es) = filter (\<lambda>x. fst x \<noteq> i) (located side es)"
  by (induction es) auto

text \<open>A cancel of an unknown order, or by a user who does not own it, has nothing to remove.\<close>

lemma cancel_rejected_refines:
  assumes "index_ok e"
    and "\<nexists>loc. me_orderIndex e (c_orderId c) = Some loc \<and> ol_userId loc = c_userId c"
  shows "spec_cancel c (abs_engine e) = abs_engine e" and "OnOrderCancel c e = e"
proof -
  let ?b = "abs_engine e"
  have "\<not> cancels c (p, r)" if "(p, r) \<in> set (sb_bids ?b) \<union> set (sb_asks ?b)" for p r
    using that assms(2) entry_index [OF assms(1), of p r] by (auto simp: cancels_def)
  then show "spec_cancel c ?b = ?b"
    by (cases ?b) (auto simp: spec_cancel_def filter_id_conv)
  show "OnOrderCancel c e = e"
    using assms(2) by (intro OnOrderCancel_rejected) blast
qed

text \<open>An accepted cancel finds the one order with its id where the index says it is.\<close>

lemma cancel_target:
  assumes "index_ok e" and "me_orderIndex e (c_orderId c) = Some loc" and "ol_userId loc = c_userId c"
    and "(p, r) \<in> set (sb_bids (abs_engine e)) \<union> set (sb_asks (abs_engine e))"
  shows "cancels c (p, r) \<longleftrightarrow> ro_orderId r = c_orderId c"
    and "ro_orderId r = c_orderId c \<Longrightarrow> p = ol_price loc \<and>
      ((p, r) \<in> set (sb_bids (abs_engine e)) \<longrightarrow> ol_side loc = Buy) \<and>
      ((p, r) \<in> set (sb_asks (abs_engine e)) \<longrightarrow> ol_side loc = Sell)"
  using assms(2-) entry_index [OF assms(1), of p r] by (auto simp: cancels_def)

lemma cancel_accepted_abs:
  assumes "engine_books_ok e" and "index_ok e"
    and loc: "me_orderIndex e (c_orderId c) = Some loc" "ol_userId loc = c_userId c"
  shows "abs_engine (OnOrderCancel c e) =
    \<lparr>sb_bids = filter (\<lambda>en. ro_orderId (snd en) \<noteq> c_orderId c) (sb_bids (abs_engine e)),
     sb_asks = filter (\<lambda>en. ro_orderId (snd en) \<noteq> c_orderId c) (sb_asks (abs_engine e))\<rparr>"
proof -
  let ?b = "abs_engine e" and ?keep = "filter (\<lambda>en. ro_orderId (snd en) \<noteq> c_orderId c)"
  note target = cancel_target [OF assms(2) loc]
  have sorted: "fm_sorted greater (me_bids e)" "fm_sorted (<) (me_asks e)"
    using assms(1) by (auto simp: engine_books_ok_def book_ok_def)
  have at_price: "filter (\<lambda>(p, r). p = ol_price loc \<longrightarrow> ro_orderId r \<noteq> c_orderId c) es = ?keep es"
    if "set es \<subseteq> set (sb_bids ?b) \<union> set (sb_asks ?b)" for es
    using that target(2) by (intro filter_cong refl) (clarsimp, blast)
  show ?thesis
  proof (cases "ol_side loc")
    case Buy
    then have "?keep (sb_asks ?b) = sb_asks ?b"
      using target(2) by (fastforce simp: filter_id_conv)
    with Buy at_price [of "sb_bids ?b"] show ?thesis
      by (simp add: OnOrderCancel_accepted [OF loc] abs_engine_def bid_book.erase_flatten [OF sorted(1)])
  next
    case Sell
    then have "?keep (sb_bids ?b) = sb_bids ?b"
      using target(2) by (fastforce simp: filter_id_conv)
    with Sell at_price [of "sb_asks ?b"] show ?thesis
      by (simp add: OnOrderCancel_accepted [OF loc] abs_engine_def ask_book.erase_flatten [OF sorted(2)])
  qed
qed

lemma OnOrderCancel_refines:
  assumes "engine_books_ok e" and "index_ok e"
  shows "abs_engine (OnOrderCancel c e) = spec_cancel c (abs_engine e)" (is ?refines)
    and "index_ok (OnOrderCancel c e)" (is ?index)
proof -
  have "?refines \<and> ?index"
  proof (cases "\<exists>loc. me_orderIndex e (c_orderId c) = Some loc \<and> ol_userId loc = c_userId c")
    case False
    then show ?thesis using cancel_rejected_refines [OF assms(2)] assms(2) by simp
  next
    case True
    then obtain loc where loc: "me_orderIndex e (c_orderId c) = Some loc" "ol_userId loc = c_userId c"
      by blast
    note abs = cancel_accepted_abs [OF assms loc]
    have "spec_cancel c (abs_engine e) = abs_engine (OnOrderCancel c e)"
      unfolding abs spec_cancel_def using cancel_target(1) [OF assms(2) loc]
      by (auto intro!: filter_cong)
    moreover have "locations (abs_engine (OnOrderCancel c e)) =
        filter (\<lambda>x. fst x \<noteq> c_orderId c) (locations (abs_engine e))"
      by (simp add: abs locations_def located_filter)
    ultimately show ?thesis
      using assms(2) by (simp add: index_ok_def distinct_map_filter map_of_filter_key OnOrderCancel_accepted [OF loc])
  qed
  then show ?refines and ?index by blast+
qed

end
