(* ===== verification/Engine_Properties.thy ===== *)
theory Engine_Properties
  imports Engine_Invariants
begin

text \<open>
  The properties of one \<open>MatchingEngine\<close>, over every state that a sequence of incoming orders and
  cancels can reach. \<open>AddOrder\<close> is the engine called with a handler that appends each trade to a
  list, the way the engine's own tests call it; \<open>OnOrderAdd_handler\<close> shows that any other handler
  sees exactly those trades in that order, so nothing is lost by this choice.
\<close>

section \<open>Collected trades and reachable engines\<close>

definition AddOrder :: "OrderAdd \<Rightarrow> MatchingEngine \<Rightarrow> MatchingEngine \<times> Trade list" where
  "AddOrder order e = OnOrderAdd order (\<lambda>t ts. ts @ [t]) e []"

lemma match_level_handler:
  assumes "match_level (\<lambda>t ts. ts @ [t]) inc p q level idx acc = (q', level', idx', ts)"
  shows "\<exists>ts'. ts = acc @ ts' \<and> match_level h inc p q level idx s = (q', level', idx', fold h ts' s)"
  using assms
proof (induction level arbitrary: q idx acc s)
  case (Cons r level)
  show ?case
  proof (cases "0 < q \<and> ro_volume r \<le> q")
    case True
    let ?t = "mk_trade inc p r (ro_volume r)"
    from True Cons.prems have "match_level (\<lambda>t ts. ts @ [t]) inc p (q - ro_volume r) level
        (idx(ro_orderId r := None)) (acc @ [?t]) = (q', level', idx', ts)"
      by simp
    from Cons.IH [OF this, of "h ?t s"] obtain ts' where
      "ts = (acc @ [?t]) @ ts'" "match_level h inc p (q - ro_volume r) level (idx(ro_orderId r := None)) (h ?t s) =
        (q', level', idx', fold h ts' (h ?t s))"
      by blast
    with True show ?thesis by (intro exI [of _ "?t # ts'"]) simp
  next
    case False
    with Cons.prems show ?thesis
      by (auto split: if_splits intro: exI [of _ "[mk_trade inc p r q]"])
  qed
qed simp

lemma Match_handler:
  assumes "Match book inc q crosses (\<lambda>t ts. ts @ [t]) idx acc = (q', book', idx', ts)"
  shows "\<exists>ts'. ts = acc @ ts' \<and> Match book inc q crosses h idx s = (q', book', idx', fold h ts' s)"
  using assms
proof (induction book arbitrary: q idx acc s)
  case (Cons pl book)
  obtain p level where pl: "pl = (p, level)" by (cases pl)
  obtain q1 level1 idx1 ts1 where
    m: "match_level (\<lambda>t ts. ts @ [t]) inc p q level idx acc = (q1, level1, idx1, ts1)"
    by (rule prod_cases4)
  from match_level_handler [OF m, of h s] obtain ts' where
    ts1: "ts1 = acc @ ts'" "match_level h inc p q level idx s = (q1, level1, idx1, fold h ts' s)"
    by blast
  show ?case
  proof (cases "0 < q \<and> crosses (a_price inc) p \<and> level1 = []")
    case True
    with Cons.prems m have "Match book inc q1 crosses (\<lambda>t ts. ts @ [t]) idx1 ts1 = (q', book', idx', ts)"
      by (simp add: pl)
    from Cons.IH [OF this, of "fold h ts' s"] True ts1 show ?thesis
      by (auto simp: pl)
  next
    case False
    with Cons.prems m ts1 show ?thesis
      by (auto simp: pl split: if_splits)
  qed
qed simp

lemma OnOrderAdd_handler:
  "OnOrderAdd order h e s = (fst (AddOrder order e), fold h (snd (AddOrder order e)) s)"
proof (cases "a_side order")
  case Buy
  obtain q' book' idx' ts where
    m: "Match (me_asks e) order (a_volume order) (\<lambda>x y. y \<le> x) (\<lambda>t ts. ts @ [t]) (me_orderIndex e) [] = (q', book', idx', ts)"
    by (rule prod_cases4)
  from Match_handler [OF m, of h s] m Buy show ?thesis
    by (auto simp: AddOrder_def OnOrderAdd_def Let_def)
next
  case Sell
  obtain q' book' idx' ts where
    m: "Match (me_bids e) order (a_volume order) (\<le>) (\<lambda>t ts. ts @ [t]) (me_orderIndex e) [] = (q', book', idx', ts)"
    by (rule prod_cases4)
  from Match_handler [OF m, of h s] m Sell show ?thesis
    by (auto simp: AddOrder_def OnOrderAdd_def Let_def)
qed

inductive engine_reach :: "MatchingEngine \<Rightarrow> bool" where
  start: "engine_reach new_MatchingEngine"
| add: "engine_reach e \<Longrightarrow> engine_reach (fst (AddOrder order e))"
| cancel: "engine_reach e \<Longrightarrow> engine_reach (OnOrderCancel c e)"

lemma engine_reach_engine_inv: "engine_reach e \<Longrightarrow> engine_inv e"
  by (induction rule: engine_reach.induct)
    (simp_all add: engine_inv_new OnOrderAdd_inv AddOrder_def OnOrderCancel_inv)

section \<open>Both sides at once\<close>

definition own :: "Side \<Rightarrow> Spec_Book \<Rightarrow> Entry list" where
  "own side b = (case side of Buy \<Rightarrow> sb_bids b | Sell \<Rightarrow> sb_asks b)"

definition opposite :: "Side \<Rightarrow> Spec_Book \<Rightarrow> Entry list" where
  "opposite side b = (case side of Buy \<Rightarrow> sb_asks b | Sell \<Rightarrow> sb_bids b)"

definition acceptable :: "OrderAdd \<Rightarrow> Price \<Rightarrow> bool" where
  "acceptable order p = (case a_side order of Buy \<Rightarrow> p \<le> a_price order | Sell \<Rightarrow> a_price order \<le> p)"

text \<open>An earlier entry of a side has a price at least as good for the taker.\<close>

definition better :: "Side \<Rightarrow> Price \<Rightarrow> Price \<Rightarrow> bool" where
  "better taker p p' = (case taker of Buy \<Rightarrow> p < p' | Sell \<Rightarrow> p' < p)"

lemma spec_add_fill:
  obtains fs q es where
    "fill (acceptable order) (a_volume order) (opposite (a_side order) b) = (fs, q, es)"
    and "snd (spec_add order b) = map (trade_of order) fs"
    and "opposite (a_side order) (fst (spec_add order b)) = es"
    and "\<exists>lt. own (a_side order) (fst (spec_add order b)) =
      (if 0 < q then stable_insert lt (entry_of order q) (own (a_side order) b) else own (a_side order) b)"
proof (cases "a_side order")
  case Buy
  obtain fs q es where f: "fill (\<lambda>p. p \<le> a_price order) (a_volume order) (sb_asks b) = (fs, q, es)"
    by (rule prod_cases3)
  then show thesis
    using Buy by (intro that [of fs q es]) (auto simp: own_def opposite_def acceptable_def [abs_def] spec_add_def)
next
  case Sell
  obtain fs q es where f: "fill (\<lambda>p. a_price order \<le> p) (a_volume order) (sb_bids b) = (fs, q, es)"
    by (rule prod_cases3)
  then show thesis
    using Sell by (intro that [of fs q es]) (auto simp: own_def opposite_def acceptable_def [abs_def] spec_add_def)
qed

lemma opposite_ok:
  assumes "engine_inv e"
  shows "positive (opposite side (abs_engine e))"
    and "sorted_wrt (\<lambda>x y. \<not> better side (fst y) (fst x)) (opposite side (abs_engine e))"
proof -
  have "fm_sorted greater (me_bids e)" "fm_sorted (<) (me_asks e)"
    and "positive (fm_flatten (me_bids e))" "positive (fm_flatten (me_asks e))"
    using assms by (auto simp: engine_inv_def engine_books_ok_def book_ok_def)
  then show "positive (opposite side (abs_engine e))"
    and "sorted_wrt (\<lambda>x y. \<not> better side (fst y) (fst x)) (opposite side (abs_engine e))"
    using fm_greater.flatten_sorted [of "me_bids e"] fm_less.flatten_sorted [of "me_asks e"]
    by (cases side; simp add: opposite_def abs_engine_def better_def)+
qed

lemma AddOrder_refines:
  assumes "engine_inv e" and "AddOrder order e = (e', ts)"
  shows "abs_engine e' = fst (spec_add order (abs_engine e))" and "ts = snd (spec_add order (abs_engine e))"
proof -
  have "fold (\<lambda>t ts. ts @ [t]) ts acc = acc @ ts" for ts acc :: "Trade list"
    by (induction ts arbitrary: acc) auto
  then show "abs_engine e' = fst (spec_add order (abs_engine e))" and "ts = snd (spec_add order (abs_engine e))"
    using assms OnOrderAdd_refines [of e order "\<lambda>t ts. ts @ [t]" "[]"] by (auto simp: AddOrder_def engine_inv_def)
qed

text \<open>What one incoming order does, in terms of the reference fill.\<close>

lemma AddOrder_fill:
  assumes "engine_inv e" and "AddOrder order e = (e', ts)"
  obtains fs q lt where
    "fill (acceptable order) (a_volume order) (opposite (a_side order) (abs_engine e)) =
       (fs, q, opposite (a_side order) (abs_engine e'))"
    and "ts = map (trade_of order) fs"
    and "own (a_side order) (abs_engine e') =
      (if 0 < q then stable_insert lt (entry_of order q) (own (a_side order) (abs_engine e))
       else own (a_side order) (abs_engine e))"
  using spec_add_fill [of order "abs_engine e"] AddOrder_refines [OF assms] by metis

lemma volume_stable_insert [simp]: "volume_of (stable_insert lt (p, r) es) = num (ro_volume r) + volume_of es"
proof -
  obtain xs ys where "es = xs @ ys" "stable_insert lt (p, r) es = xs @ (p, r) # ys"
    by (rule stable_insert_split)
  then show ?thesis by simp
qed

lemma filled_trades: "(\<Sum>t\<leftarrow>map (trade_of order) fs. num (t_volume t)) = filled fs"
  by (induction fs) (auto simp: mk_trade_def)

section \<open>Runs with fresh order ids\<close>

inductive fresh_reach :: "MatchingEngine \<Rightarrow> bool" where
  start: "fresh_reach new_MatchingEngine"
| add: "fresh_reach e \<Longrightarrow> me_orderIndex e (a_orderId order) = None \<Longrightarrow> fresh_reach (fst (AddOrder order e))"
| cancel: "fresh_reach e \<Longrightarrow> fresh_reach (OnOrderCancel c e)"

lemma index_ok_new: "index_ok new_MatchingEngine"
  by (simp add: index_ok_def locations_def abs_engine_def new_MatchingEngine_def)

lemma fresh_reach_ok: "fresh_reach e \<Longrightarrow> engine_inv e \<and> index_ok e"
proof (induction rule: fresh_reach.induct)
  case start
  then show ?case by (simp add: engine_inv_new index_ok_new)
next
  case (add e order)
  then show ?case
    by (simp add: AddOrder_def OnOrderAdd_inv OnOrderAdd_index engine_inv_def [of e])
next
  case (cancel e c)
  then show ?case
    by (simp add: OnOrderCancel_inv OnOrderCancel_refines engine_inv_def [of e])
qed

section \<open>Concrete runs\<close>

text \<open>The tests' \<open>MakeOrder\<close>, and a small book for the instances below.\<close>

definition MakeOrder :: "int \<Rightarrow> int \<Rightarrow> Side \<Rightarrow> int \<Rightarrow> int \<Rightarrow> OrderAdd" where
  "MakeOrder i user side price volume =
     \<lparr>a_orderId = OrderId i, a_userId = UserId user, a_ticker = ''AAPL'', a_side = side,
      a_price = Price price, a_volume = Volume volume\<rparr>"

fun run_adds :: "OrderAdd list \<Rightarrow> MatchingEngine \<Rightarrow> MatchingEngine" where
  "run_adds [] e = e"
| "run_adds (o1 # os) e = run_adds os (fst (AddOrder o1 e))"

lemma run_adds_reach: "engine_reach e \<Longrightarrow> engine_reach (run_adds os e)"
  by (induction os arbitrary: e) (auto intro: engine_reach.add)

lemmas engine_eval =
  AddOrder_def OnOrderAdd_def OnOrderCancel_def EraseFromBook_def new_MatchingEngine_def UpdateMidPrice_def
  Rest_def Store_def Seqlock_new_def Let_def mk_trade_def i64_div_def MakeOrder_def MidPrice_def settled_def


definition sample_engine :: MatchingEngine where
  "sample_engine = run_adds [MakeOrder 1 1 Sell 100 10, MakeOrder 2 2 Sell 101 5, MakeOrder 3 1 Buy 98 4]
     new_MatchingEngine"

abbreviation sample_order :: OrderAdd where
  "sample_order \<equiv> MakeOrder 4 3 Buy 101 12"

lemma sample_reach: "engine_reach sample_engine"
  unfolding sample_engine_def by (intro run_adds_reach engine_reach.start)

lemma sample_fresh: "fresh_reach sample_engine"
proof -
  have "fresh_reach (fst (AddOrder (MakeOrder 3 1 Buy 98 4) (fst (AddOrder (MakeOrder 2 2 Sell 101 5)
      (fst (AddOrder (MakeOrder 1 1 Sell 100 10) new_MatchingEngine))))))"
    by (intro fresh_reach.intros) (simp_all add: engine_eval i64_eval)
  then show ?thesis by (simp add: sample_engine_def)
qed

lemma sample_book:
  "abs_engine sample_engine =
     \<lparr>sb_bids = [(Price 98, \<lparr>ro_orderId = OrderId 3, ro_userId = UserId 1, ro_volume = Volume 4\<rparr>)],
      sb_asks = [(Price 100, \<lparr>ro_orderId = OrderId 1, ro_userId = UserId 1, ro_volume = Volume 10\<rparr>),
                 (Price 101, \<lparr>ro_orderId = OrderId 2, ro_userId = UserId 2, ro_volume = Volume 5\<rparr>)]\<rparr>"
  by (simp add: sample_engine_def engine_eval i64_eval abs_engine_def)

lemma sample_trades:
  "snd (AddOrder sample_order sample_engine) =
     [\<lparr>t_makerId = UserId 1, t_takerId = UserId 3, t_makerOrderId = OrderId 1, t_takerOrderId = OrderId 4,
       t_ticker = ''AAPL'', t_takerSide = Buy, t_executionPrice = Price 100, t_volume = Volume 10\<rparr>,
      \<lparr>t_makerId = UserId 2, t_takerId = UserId 3, t_makerOrderId = OrderId 2, t_takerOrderId = OrderId 4,
       t_ticker = ''AAPL'', t_takerSide = Buy, t_executionPrice = Price 101, t_volume = Volume 2\<rparr>]"
  by (simp add: sample_engine_def engine_eval i64_eval)

section \<open>Properties\<close>

text \<open>C1: every state the engine can reach, by any sequence of incoming orders and cancels with any
  field values, has its bids sorted by falling and its asks by rising price, without empty levels
  and with positive volumes, has no bid at or above an ask, and publishes the mid price of its
  current top of book whenever a side has an order.\<close>

theorem engine_invariant: "engine_reach e \<Longrightarrow> engine_inv e"
  by (rule engine_reach_engine_inv)

theorem engine_invariant_witness:
  "engine_inv sample_engine \<and> map fst (me_bids sample_engine) = [Price 98] \<and>
   map fst (me_asks sample_engine) = [Price 100, Price 101] \<and> MidPrice sample_engine = Some (Some (Price 99))"
  using engine_invariant [OF sample_reach] by (simp add: sample_engine_def engine_eval i64_eval ival_i64)

text \<open>C2: an incoming order does what price-time priority prescribes. On the flattened book
  (the resting orders of a side in priority order) the engine's nested loops, its erasing of filled
  orders and empty levels and its resting of the remainder are the one-pass reference \<open>spec_add\<close>,
  and the trade handler is called once per reference fill, in the reference's order.\<close>

theorem add_refines_price_time:
  assumes "engine_reach e"
  shows "abs_engine (fst (OnOrderAdd order onTrade e s)) = fst (spec_add order (abs_engine e)) \<and>
    snd (OnOrderAdd order onTrade e s) = fold onTrade (snd (spec_add order (abs_engine e))) s"
  using engine_reach_engine_inv [OF assms] OnOrderAdd_refines [of e order onTrade s] by (simp add: engine_inv_def)

theorem add_refines_price_time_witness:
  "sb_asks (abs_engine (fst (OnOrderAdd sample_order (\<lambda>t n. n + 1) sample_engine (0 :: nat)))) =
     [(Price 101, \<lparr>ro_orderId = OrderId 2, ro_userId = UserId 2, ro_volume = Volume 3\<rparr>)] \<and>
   snd (OnOrderAdd sample_order (\<lambda>t n. n + 1) sample_engine (0 :: nat)) = 2"
  using add_refines_price_time [OF sample_reach, of sample_order "\<lambda>t n. n + 1" "0 :: nat"]
  by (simp add: sample_book spec_add_def MakeOrder_def i64_eval)



text \<open>C9: every trade an order prints is sound: at a price the incoming order accepts (so never
  worse than its limit for either party), for a positive volume that one resting order of the
  opposite side had at that very price, with that order's id and owner as maker and the incoming
  order's id, owner, ticker and side as taker.\<close>

theorem trades_sound:
  assumes "engine_reach e" and "AddOrder order e = (e', ts)" and "t \<in> set ts"
  shows "acceptable order (t_executionPrice t) \<and> 0 < t_volume t \<and>
    t_takerId t = a_userId order \<and> t_takerOrderId t = a_orderId order \<and>
    t_ticker t = a_ticker order \<and> t_takerSide t = a_side order \<and>
    (\<exists>r. (t_executionPrice t, r) \<in> set (opposite (a_side order) (abs_engine e)) \<and>
       t_makerId t = ro_userId r \<and> t_makerOrderId t = ro_orderId r \<and> t_volume t \<le> ro_volume r)"
proof -
  have inv: "engine_inv e" by (rule engine_reach_engine_inv [OF assms(1)])
  from inv assms(2) obtain fs q lt where
    f: "fill (acceptable order) (a_volume order) (opposite (a_side order) (abs_engine e)) =
       (fs, q, opposite (a_side order) (abs_engine e'))"
    and ts: "ts = map (trade_of order) fs"
    by (rule AddOrder_fill)
  from assms(3) ts obtain p r v where "((p, r), v) \<in> set fs" and "t = mk_trade order p r v"
    by (auto simp: trade_of_def)
  then show ?thesis
    using fill_sound [OF f opposite_ok(1) [OF inv]] by (auto simp: mk_trade_def)
qed

theorem trades_sound_witness:
  "\<exists>r. (Price 100, r) \<in> set (sb_asks (abs_engine sample_engine)) \<and> ro_orderId r = OrderId 1 \<and> Volume 10 \<le> ro_volume r"
proof -
  have "hd (snd (AddOrder sample_order sample_engine)) \<in> set (snd (AddOrder sample_order sample_engine))"
    by (simp add: sample_trades)
  from trades_sound [OF sample_reach prod.collapse [symmetric] this] show ?thesis
    by (simp add: sample_trades) (auto simp: opposite_def MakeOrder_def)
qed

text \<open>C7: fills follow price-time priority. The orders filled are the first ones of the opposite
  side, in their order, all but the last one completely; what is left of the side is the rest,
  headed by the last filled order with its volume reduced when it was filled in part; and the side
  is ordered by price from the taker's best, first come first served within a price.\<close>

theorem price_time_priority:
  assumes "engine_reach e" and "AddOrder order e = (e', ts)"
  shows "\<exists>fs. ts = map (trade_of order) fs \<and>
    priority_fill (opposite (a_side order) (abs_engine e)) fs (opposite (a_side order) (abs_engine e')) \<and>
    sorted_wrt (\<lambda>x y. \<not> better (a_side order) (fst y) (fst x)) (opposite (a_side order) (abs_engine e))"
proof -
  have inv: "engine_inv e" by (rule engine_reach_engine_inv [OF assms(1)])
  from inv assms(2) obtain fs q lt where
    f: "fill (acceptable order) (a_volume order) (opposite (a_side order) (abs_engine e)) =
       (fs, q, opposite (a_side order) (abs_engine e'))"
    and ts: "ts = map (trade_of order) fs"
    by (rule AddOrder_fill)
  then show ?thesis
    using fill_priority [OF f] opposite_ok(2) [OF inv, of "a_side order"] by blast
qed

theorem price_time_priority_witness:
  "\<exists>fs. snd (AddOrder sample_order sample_engine) = map (trade_of sample_order) fs \<and>
     map fst fs = take 2 (sb_asks (abs_engine sample_engine))"
proof -
  obtain fs where fs: "snd (AddOrder sample_order sample_engine) = map (trade_of sample_order) fs"
    and "priority_fill (opposite (a_side sample_order) (abs_engine sample_engine)) fs
      (opposite (a_side sample_order) (abs_engine (fst (AddOrder sample_order sample_engine))))"
    using price_time_priority [OF sample_reach prod.collapse [symmetric], of sample_order] by blast
  moreover have "length fs = 2"
    using arg_cong [OF fs, of length] by (simp add: sample_trades)
  ultimately show ?thesis
    by (auto simp: priority_fill_def opposite_def MakeOrder_def)
qed

lemma none_acceptable_sorted:
  assumes "sorted_wrt (\<lambda>x y. \<not> better (a_side order) (fst y) (fst x)) es"
    and "es = [] \<or> \<not> acceptable order (fst (hd es))"
  shows "\<forall>(p, r) \<in> set es. \<not> acceptable order p"
  using assms by (cases es) (auto simp: acceptable_def better_def split: Side.splits)



text \<open>C14: as long as live order ids are not reused, a cancel does exactly what it promises: it
  removes the resting order with that id when it belongs to the cancelling user, wherever in the
  book it rests, and changes nothing otherwise.\<close>

theorem cancel_refines:
  assumes "fresh_reach e"
  shows "abs_engine (OnOrderCancel c e) = spec_cancel c (abs_engine e)"
  using fresh_reach_ok [OF assms] OnOrderCancel_refines(1) by (simp add: engine_inv_def)

theorem cancel_refines_witness:
  "sb_asks (abs_engine (OnOrderCancel \<lparr>c_orderId = OrderId 1, c_userId = UserId 1, c_ticker = ''AAPL''\<rparr> sample_engine)) =
     [(Price 101, \<lparr>ro_orderId = OrderId 2, ro_userId = UserId 2, ro_volume = Volume 5\<rparr>)] \<and>
   abs_engine (OnOrderCancel \<lparr>c_orderId = OrderId 1, c_userId = UserId 2, c_ticker = ''AAPL''\<rparr> sample_engine) =
     abs_engine sample_engine"
  by (simp add: cancel_refines [OF sample_fresh]) (simp add: sample_book spec_cancel_def cancels_def i64_eval)

lemma erase_other_ids:
  "filter (\<lambda>en. ro_orderId (snd en) \<noteq> i) (filter (\<lambda>(p, r). p = price \<longrightarrow> ro_orderId r \<noteq> i) es) =
   filter (\<lambda>en. ro_orderId (snd en) \<noteq> i) es"
  by (induction es) auto

text \<open>C21: on every reachable engine, reused ids included, a cancel leaves all resting orders with
  another id in place and in order, on both sides.\<close>

theorem cancel_keeps_other_orders:
  assumes "engine_reach e"
  shows "filter (\<lambda>en. ro_orderId (snd en) \<noteq> c_orderId c) (own side (abs_engine (OnOrderCancel c e))) =
    filter (\<lambda>en. ro_orderId (snd en) \<noteq> c_orderId c) (own side (abs_engine e))"
proof (cases "\<exists>loc. me_orderIndex e (c_orderId c) = Some loc \<and> ol_userId loc = c_userId c")
  case True
  then obtain loc where loc: "me_orderIndex e (c_orderId c) = Some loc" "ol_userId loc = c_userId c"
    by blast
  have "fm_sorted greater (me_bids e)" "fm_sorted (<) (me_asks e)"
    using engine_reach_engine_inv [OF assms] by (auto simp: engine_inv_def engine_books_ok_def book_ok_def)
  then show ?thesis
    by (cases side) (simp_all add: OnOrderCancel_accepted [OF loc] own_def abs_engine_def
        bid_book.erase_flatten ask_book.erase_flatten erase_other_ids del: filter_filter)
next
  case False
  then have "OnOrderCancel c e = e" by (intro OnOrderCancel_rejected) blast
  then show ?thesis by simp
qed

theorem cancel_keeps_other_orders_witness:
  "filter (\<lambda>en. ro_orderId (snd en) \<noteq> OrderId 1)
     (own Sell (abs_engine (OnOrderCancel \<lparr>c_orderId = OrderId 1, c_userId = UserId 1, c_ticker = ''AAPL''\<rparr> sample_engine))) =
   [(Price 101, \<lparr>ro_orderId = OrderId 2, ro_userId = UserId 2, ro_volume = Volume 5\<rparr>)]"
  using cancel_keeps_other_orders [OF sample_reach,
      of "\<lparr>c_orderId = OrderId 1, c_userId = UserId 1, c_ticker = ''AAPL''\<rparr>" Sell]
  by (simp add: sample_book own_def i64_eval)

lemma sdiv_2_between: "(b :: int) < a \<Longrightarrow> b \<le> (b + a) sdiv 2 \<and> (b + a) sdiv 2 \<le> a"
  by (auto simp: signed_divide_int_def sgn_if)

text \<open>C22: with orders on both sides whose top prices have a representable sum, the published mid
  price is readable, is half that sum rounded towards zero, and lies between best bid and best ask.\<close>

theorem mid_price_between:
  assumes "engine_reach e" and "me_bids e = (bid, bl) # bids" and "me_asks e = (ask, al) # asks"
    and "in_i64 (num bid + num ask)"
  shows "\<exists>m. MidPrice e = Some (Some m) \<and> num m = (num bid + num ask) sdiv 2 \<and> bid \<le> m \<and> m \<le> ask"
proof -
  let ?m = "StrongType (i64_div (raw bid + raw ask) (i64 2)) :: Price"
  have inv: "engine_inv e" by (rule engine_reach_engine_inv [OF assms(1)])
  then have "bid < ask"
    using assms(2,3) by (auto simp: engine_inv_def uncrossed_def)
  then have between: "num bid \<le> (num bid + num ask) sdiv 2 \<and> (num bid + num ask) sdiv 2 \<le> num ask"
    by (intro sdiv_2_between) (simp add: num_less)
  have two: "ival (i64 2) = 2"
    by (simp add: ival_i64 wrap64_def)
  have "in_i64 ((num bid + num ask) sdiv 2)"
    using between num_range [of bid] num_range [of ask] by (auto simp: in_i64_def)
  then have m: "num ?m = (num bid + num ask) sdiv 2"
    using assms(4) by (simp add: num_def i64_div_def two)
  have "MidPrice e = Some (Some ?m)"
    using inv assms(2,3) by (simp add: MidPrice_def engine_inv_def mid_ok_def top_mid_def)
  moreover have "bid \<le> ?m" and "?m \<le> ask"
    using between m by (simp_all add: num_le [symmetric])
  ultimately show ?thesis using m by blast
qed

theorem mid_price_between_witness:
  "\<exists>m. MidPrice sample_engine = Some (Some m) \<and> num m = 99 \<and> Price 98 \<le> m \<and> m \<le> Price 100"
proof -
  have "me_bids sample_engine = (Price 98, [\<lparr>ro_orderId = OrderId 3, ro_userId = UserId 1, ro_volume = Volume 4\<rparr>]) # []"
    and "me_asks sample_engine = (Price 100, [\<lparr>ro_orderId = OrderId 1, ro_userId = UserId 1, ro_volume = Volume 10\<rparr>]) #
      [(Price 101, [\<lparr>ro_orderId = OrderId 2, ro_userId = UserId 2, ro_volume = Volume 5\<rparr>])]"
    by (simp_all add: sample_engine_def engine_eval i64_eval)
  from mid_price_between [OF sample_reach this] show ?thesis
    by (simp add: i64_eval in_i64_def)
qed

text \<open>C24: the sum in \<open>UpdateMidPrice\<close> is taken in 64 bits: two valid positive prices whose sum is
  not representable give a negative mid price (in C++, signed overflow).\<close>

theorem mid_price_overflow:
  "\<exists>e bid ask m. engine_reach e \<and> fst (hd (me_bids e)) = bid \<and> fst (hd (me_asks e)) = ask \<and>
     MidPrice e = Some (Some m) \<and> 0 < bid \<and> bid < ask \<and> m < 0"
proof -
  let ?e = "run_adds [MakeOrder 1 1 Buy 6000000000000000000 10, MakeOrder 2 2 Sell 7000000000000000000 10]
    new_MatchingEngine"
  have "engine_reach ?e" by (intro run_adds_reach engine_reach.start)
  moreover have "fst (hd (me_bids ?e)) = Price 6000000000000000000 \<and>
      fst (hd (me_asks ?e)) = Price 7000000000000000000 \<and>
      MidPrice ?e = Some (Some (Price (- 2723372036854775808)))"
    by (simp add: engine_eval i64_eval ival_i64)
  ultimately show ?thesis
    by (intro exI [of _ ?e] exI conjI) (auto simp: i64_eval)
qed

text \<open>C25: an order id that is used twice lets one user cancel another user's order: the index
  keeps the later location and owner only, and \<open>EraseFromBook\<close> removes every order with that id
  at that price, so after user 2 cancels, user 1's resting order is gone.\<close>

theorem duplicate_id_cancels_foreign_order:
  "\<exists>e c r. engine_reach e \<and> (Price 100, r) \<in> set (sb_asks (abs_engine e)) \<and> ro_userId r \<noteq> c_userId c \<and>
     sb_bids (abs_engine (OnOrderCancel c e)) = [] \<and> sb_asks (abs_engine (OnOrderCancel c e)) = []"
proof -
  let ?e = "run_adds [MakeOrder 1 1 Sell 100 10, MakeOrder 1 2 Sell 100 5] new_MatchingEngine"
  let ?c = "\<lparr>c_orderId = OrderId 1, c_userId = UserId 2, c_ticker = ''AAPL''\<rparr>"
  have "engine_reach ?e" by (intro run_adds_reach engine_reach.start)
  moreover have "abs_engine (OnOrderCancel ?c ?e) = \<lparr>sb_bids = [], sb_asks = []\<rparr>"
    by (simp add: engine_eval i64_eval abs_engine_def)
  moreover have "(Price 100, \<lparr>ro_orderId = OrderId 1, ro_userId = UserId 1, ro_volume = Volume 10\<rparr>)
      \<in> set (sb_asks (abs_engine ?e))"
    by (simp add: engine_eval i64_eval abs_engine_def)
  ultimately show ?thesis
    by (intro exI [of _ ?e] exI [of _ ?c] exI conjI) (auto simp: i64_eval)
qed

end
