(* ===== verification/Router.thy ===== *)
theory Router
  imports Engine_Properties
begin

text \<open>
  \<open>MatchingEngineRouter\<close> of \<open>common/engine/matching_engine_router.hpp\<close>: one engine per listed
  instrument, picked by the ticker of the request.
\<close>

section \<open>State and operations\<close>

definition TickerIndex :: "Ticker \<Rightarrow> nat" where
  "TickerIndex ticker = length (takeWhile (\<lambda>t. t \<noteq> ticker) INSTRUMENTS)"

record MatchingEngineRouter =
  mr_engines :: "MatchingEngine list"

definition new_Router :: MatchingEngineRouter where
  "new_Router = \<lparr>mr_engines = replicate (length INSTRUMENTS) new_MatchingEngine\<rparr>"

definition Router_OnOrderAdd ::
  "OrderAdd \<Rightarrow> (Trade \<Rightarrow> 's \<Rightarrow> 's) \<Rightarrow> MatchingEngineRouter \<Rightarrow> 's \<Rightarrow> MatchingEngineRouter \<times> 's" where
  "Router_OnOrderAdd order onTrade r s =
     (let index = TickerIndex (a_ticker order)
      in if index < length (mr_engines r)
         then case OnOrderAdd order onTrade (mr_engines r ! index) s of
                (e, s) \<Rightarrow> (r\<lparr>mr_engines := (mr_engines r)[index := e]\<rparr>, s)
         else (r, s))"

definition Router_OnOrderCancel :: "OrderCancel \<Rightarrow> MatchingEngineRouter \<Rightarrow> MatchingEngineRouter" where
  "Router_OnOrderCancel cancel r =
     (let index = TickerIndex (c_ticker cancel)
      in if index < length (mr_engines r)
         then r\<lparr>mr_engines := (mr_engines r)[index := OnOrderCancel cancel (mr_engines r ! index)]\<rparr>
         else r)"

definition Router_MidPrice :: "Ticker \<Rightarrow> MatchingEngineRouter \<Rightarrow> Price option option" where
  "Router_MidPrice ticker r =
     (let index = TickerIndex ticker
      in if index < length (mr_engines r) then MidPrice (mr_engines r ! index) else Some None)"

section \<open>Dispatch\<close>

lemma TickerIndex_less: "TickerIndex t < length INSTRUMENTS \<longleftrightarrow> t \<in> set INSTRUMENTS"
  by (auto simp: TickerIndex_def INSTRUMENTS_def)

lemma TickerIndex_eq:
  "t \<in> set INSTRUMENTS \<Longrightarrow> TickerIndex t = TickerIndex t' \<longleftrightarrow> t = t'"
  by (auto simp: TickerIndex_def INSTRUMENTS_def)

definition engine_at :: "Ticker \<Rightarrow> MatchingEngineRouter \<Rightarrow> MatchingEngine" where
  "engine_at t r = mr_engines r ! TickerIndex t"

text \<open>One request, with the trades it prints collected in order; and sequences of requests.\<close>

fun engine_step :: "InboundCommand \<Rightarrow> MatchingEngine \<Rightarrow> MatchingEngine \<times> Trade list" where
  "engine_step (CmdAdd order) e = AddOrder order e"
| "engine_step (CmdCancel c) e = (OnOrderCancel c e, [])"

fun router_step :: "InboundCommand \<Rightarrow> MatchingEngineRouter \<Rightarrow> MatchingEngineRouter \<times> Trade list" where
  "router_step (CmdAdd order) r = Router_OnOrderAdd order (\<lambda>t ts. ts @ [t]) r []"
| "router_step (CmdCancel c) r = (Router_OnOrderCancel c r, [])"

fun run :: "('c \<Rightarrow> 'e \<Rightarrow> 'e \<times> 'o list) \<Rightarrow> 'c list \<Rightarrow> 'e \<Rightarrow> 'e \<times> 'o list" where
  "run step [] e = (e, [])"
| "run step (c # cs) e =
     (case step c e of (e', os) \<Rightarrow> case run step cs e' of (e'', os') \<Rightarrow> (e'', os @ os'))"

definition router_ok :: "MatchingEngineRouter \<Rightarrow> bool" where
  "router_ok r \<longleftrightarrow> length (mr_engines r) = length INSTRUMENTS \<and> (\<forall>e \<in> set (mr_engines r). engine_inv e)"

lemma router_ok_new: "router_ok new_Router"
  by (auto simp: router_ok_def new_Router_def engine_inv_new)

lemma router_step_cases:
  assumes "router_ok r"
  shows "router_step c r =
    (if cmd_ticker c \<in> set INSTRUMENTS
     then case engine_step c (engine_at (cmd_ticker c) r) of
            (e, ts) \<Rightarrow> (r\<lparr>mr_engines := (mr_engines r)[TickerIndex (cmd_ticker c) := e]\<rparr>, ts)
     else (r, []))"
  using assms TickerIndex_less [of "cmd_ticker c"]
  by (cases c)
    (auto simp: router_ok_def Router_OnOrderAdd_def Router_OnOrderCancel_def Let_def engine_at_def AddOrder_def)

lemma engine_step_inv: "engine_inv e \<Longrightarrow> engine_inv (fst (engine_step c e))"
  by (cases c) (simp_all add: AddOrder_def OnOrderAdd_inv OnOrderCancel_inv)

lemma engine_at_inv: "router_ok r \<Longrightarrow> t \<in> set INSTRUMENTS \<Longrightarrow> engine_inv (engine_at t r)"
  using TickerIndex_less [of t] by (simp add: router_ok_def engine_at_def)

lemma router_step_ok: "router_ok r \<Longrightarrow> router_ok (fst (router_step c r))"
  using engine_step_inv [OF engine_at_inv, of r "cmd_ticker c" c]
  by (auto simp: router_step_cases router_ok_def dest!: subsetD [OF set_update_subset_insert] split: prod.splits)

lemma engine_step_ticker:
  assumes "engine_inv e" and "t \<in> set (snd (engine_step c e))"
  shows "t_ticker t = cmd_ticker c"
proof (cases c)
  case (CmdAdd order)
  obtain e' ts where add: "AddOrder order e = (e', ts)" by (cases "AddOrder order e")
  obtain fs q lt where "ts = map (trade_of order) fs"
    by (rule AddOrder_fill [OF assms(1) add])
  then show ?thesis
    using assms(2) by (auto simp: CmdAdd add mk_trade_def trade_of_def)
qed (use assms in simp)

lemma router_step_engine_at:
  assumes "router_ok r" and "t \<in> set INSTRUMENTS"
  shows "engine_at t (fst (router_step c r)) =
      (if cmd_ticker c = t then fst (engine_step c (engine_at t r)) else engine_at t r)"
    and "filter (\<lambda>x. t_ticker x = t) (snd (router_step c r)) =
      (if cmd_ticker c = t then snd (engine_step c (engine_at t r)) else [])"
proof -
  have "length (mr_engines r) = length INSTRUMENTS" using assms(1) by (simp add: router_ok_def)
  then show "engine_at t (fst (router_step c r)) =
      (if cmd_ticker c = t then fst (engine_step c (engine_at t r)) else engine_at t r)"
    using assms TickerIndex_eq [of t "cmd_ticker c"] TickerIndex_less [of t]
    by (auto simp: router_step_cases engine_at_def nth_list_update split: prod.splits)
  show "filter (\<lambda>x. t_ticker x = t) (snd (router_step c r)) =
      (if cmd_ticker c = t then snd (engine_step c (engine_at t r)) else [])"
    using assms engine_step_ticker [OF engine_at_inv [OF assms(1)], of "cmd_ticker c" _ c]
    by (auto simp: router_step_cases filter_id_conv filter_empty_conv split: prod.splits)
qed

lemma run_ok: "router_ok r \<Longrightarrow> router_ok (fst (run router_step cs r))"
  by (induction cs arbitrary: r) (simp_all add: case_prod_beta router_step_ok)

lemma run_projection:
  assumes "router_ok r" and "t \<in> set INSTRUMENTS"
  shows "engine_at t (fst (run router_step cs r)) =
      fst (run engine_step (filter (\<lambda>c. cmd_ticker c = t) cs) (engine_at t r)) \<and>
    filter (\<lambda>x. t_ticker x = t) (snd (run router_step cs r)) =
      snd (run engine_step (filter (\<lambda>c. cmd_ticker c = t) cs) (engine_at t r))"
  using assms(1)
proof (induction cs arbitrary: r)
  case (Cons c cs)
  obtain r' ts where s: "router_step c r = (r', ts)" by (cases "router_step c r")
  then have ok: "router_ok r'" using router_step_ok [OF Cons.prems, of c] by simp
  note at = router_step_engine_at [OF Cons.prems assms(2), of c, unfolded s fst_conv snd_conv]
  show ?case
    using Cons.IH [OF ok] at by (simp add: s case_prod_beta)
qed simp

lemma engine_at_new: "t \<in> set INSTRUMENTS \<Longrightarrow> engine_at t new_Router = new_MatchingEngine"
  using TickerIndex_less [of t] by (simp add: engine_at_def new_Router_def)

lemma router_run_length: "length (mr_engines (fst (run router_step cs new_Router))) = length INSTRUMENTS"
  using run_ok [OF router_ok_new] by (simp add: router_ok_def)

section \<open>Properties\<close>

text \<open>C19: instruments do not interfere. After any sequence of requests, the book of a listed ticker is
  the book one engine has after that ticker's own requests alone, and the trades printed for the
  ticker are that engine's trades, in its order.\<close>

theorem router_isolates_instruments:
  assumes "t \<in> set INSTRUMENTS"
  shows "engine_at t (fst (run router_step cs new_Router)) =
      fst (run engine_step (filter (\<lambda>c. cmd_ticker c = t) cs) new_MatchingEngine) \<and>
    filter (\<lambda>x. t_ticker x = t) (snd (run router_step cs new_Router)) =
      snd (run engine_step (filter (\<lambda>c. cmd_ticker c = t) cs) new_MatchingEngine)"
  using run_projection [OF router_ok_new assms] engine_at_new [OF assms] by simp

definition sample_cmds :: "InboundCommand list" where
  "sample_cmds =
     [CmdAdd (MakeOrder 1 1 Sell 100 10), CmdAdd ((MakeOrder 2 2 Buy 100 10)\<lparr>a_ticker := ''MSFT''\<rparr>),
      CmdAdd ((MakeOrder 3 3 Sell 90 4)\<lparr>a_ticker := ''MSFT''\<rparr>)]"

theorem router_isolates_instruments_witness:
  "engine_at ''AAPL'' (fst (run router_step sample_cmds new_Router)) =
     fst (AddOrder (MakeOrder 1 1 Sell 100 10) new_MatchingEngine) \<and>
   filter (\<lambda>x. t_ticker x = ''AAPL'') (snd (run router_step sample_cmds new_Router)) = []"
  using router_isolates_instruments [of "''AAPL''" sample_cmds]
  by (simp add: INSTRUMENTS_def sample_cmds_def case_prod_beta) (simp add: engine_eval i64_eval)

text \<open>C23: a request for a ticker that is not listed changes no engine and prints no trade, and such a
  ticker has no mid price.\<close>

theorem router_ignores_unlisted:
  assumes "cmd_ticker c \<notin> set INSTRUMENTS" and "r = fst (run router_step cs new_Router)"
  shows "router_step c r = (r, []) \<and> Router_MidPrice (cmd_ticker c) r = Some None"
proof
  have ok: "router_ok r" using run_ok [OF router_ok_new] assms(2) by simp
  show "router_step c r = (r, [])" using assms(1) by (simp add: router_step_cases [OF ok])
  show "Router_MidPrice (cmd_ticker c) r = Some None"
    using assms TickerIndex_less [of "cmd_ticker c"]
    by (simp add: Router_MidPrice_def Let_def router_run_length)
qed

theorem router_ignores_unlisted_witness:
  "router_step (CmdCancel \<lparr>c_orderId = OrderId 1, c_userId = UserId 1, c_ticker = ''XYZ''\<rparr>)
     (fst (run router_step sample_cmds new_Router)) = (fst (run router_step sample_cmds new_Router), [])"
  using router_ignores_unlisted [of "CmdCancel \<lparr>c_orderId = OrderId 1, c_userId = UserId 1, c_ticker = ''XYZ''\<rparr>"]
  by (simp add: INSTRUMENTS_def)

end
