(* ===== verification/Queues.thy ===== *)
theory Queues
  imports Registry_Properties Router Wire
begin

text \<open>
  The queues between the threads, \<open>common/net/queues.hpp\<close>. The class \<open>boost::lockfree::spsc_queue\<close> is third-party
  code: its operations are a parameter, a record \<open>spsc\<close>, and the locale states what its documentation
  promises to one producer and one consumer. A bounded list keeps the promise.
\<close>

definition QUEUE_CAPACITY :: nat where
  "QUEUE_CAPACITY = 4096"

text \<open>\<open>push\<close> returns false, here \<open>None\<close>, and leaves the queue alone when it is full; \<open>pop\<close> when it is empty.\<close>

record ('q, 'a) spsc =
  sq_new :: 'q
  sq_push :: "'a \<Rightarrow> 'q \<Rightarrow> 'q option"
  sq_pop :: "'q \<Rightarrow> ('a \<times> 'q) option"

locale spsc_queue =
  fixes Q :: "('q, 'a) spsc" and items :: "'q \<Rightarrow> 'a list"
  assumes new_empty: "items (sq_new Q) = []"
    and push_full: "sq_push Q x q = None \<longleftrightarrow> QUEUE_CAPACITY \<le> length (items q)"
    and push_back: "sq_push Q x q = Some q' \<Longrightarrow> items q' = items q @ [x]"
    and pop_empty: "sq_pop Q q = None \<longleftrightarrow> items q = []"
    and pop_front: "sq_pop Q q = Some (x, q') \<Longrightarrow> items q = x # items q'"
begin

lemma push_when_not_full: "length (items q) < QUEUE_CAPACITY \<Longrightarrow> \<exists>q'. sq_push Q x q = Some q'"
  using push_full [of x q] by (cases "sq_push Q x q") auto

lemma blocked_nonempty: "sq_push Q x q = None \<Longrightarrow> items q \<noteq> []"
  using push_full [of x q] by (auto simp: QUEUE_CAPACITY_def)

lemma push_bounded: "sq_push Q x q = Some q' \<Longrightarrow> length (items q') \<le> QUEUE_CAPACITY"
  using push_full [of x q] push_back [of x q q'] by simp

end

definition bounded_list :: "('a list, 'a) spsc" where
  "bounded_list =
     \<lparr>sq_new = [], sq_push = (\<lambda>x q. if length q < QUEUE_CAPACITY then Some (q @ [x]) else None),
      sq_pop = (\<lambda>q. case q of [] \<Rightarrow> None | x # q \<Rightarrow> Some (x, q))\<rparr>"

interpretation bounded: spsc_queue bounded_list "\<lambda>q. q"
  by unfold_locales (auto simp: bounded_list_def split: if_splits list.splits)

text \<open>The three queues of the live pipeline: \<open>InboundQueue\<close>, \<open>MarketDataQueue\<close> and \<open>TradeQueue\<close>.\<close>

record ('qi, 'qm, 'qt) ExchangeQueues =
  q_inbound :: "('qi, InboundCommand) spsc"
  q_marketData :: "('qm, WireMarketDataMessage) spsc"
  q_trades :: "('qt, Trade) spsc"

locale exchange_queues =
  inbound: spsc_queue "q_inbound Q" inboundItems +
  marketData: spsc_queue "q_marketData Q" marketDataItems +
  trades: spsc_queue "q_trades Q" tradeItems
  for Q :: "('qi, 'qm, 'qt) ExchangeQueues" and inboundItems and marketDataItems and tradeItems

definition list_queues :: "(InboundCommand list, WireMarketDataMessage list, Trade list) ExchangeQueues" where
  "list_queues = \<lparr>q_inbound = bounded_list, q_marketData = bounded_list, q_trades = bounded_list\<rparr>"

interpretation lists: exchange_queues list_queues "\<lambda>q. q" "\<lambda>q. q" "\<lambda>q. q"
  unfolding exchange_queues_def by (simp add: list_queues_def bounded.spsc_queue_axioms)

end
