(* ===== verification/Exchange.thy ===== *)
theory Exchange
  imports Queues
begin

text \<open>
  The running exchange: the threads of \<open>exchange/main.cpp\<close>, one loop iteration or one shared access per
  step, in any interleaving. Shared are the three queues, the two \<open>*Finished\<close> flags, the shutdown flag and
  the mid prices. A retry of \<open>PushBlocking\<close>, a wait for a join or for the signal is a step that changes
  nothing. An exception that leaves a thread or \<open>main\<close> terminates the process, after which nothing runs.

  The gateway thread appears as the commands that its \<open>Run\<close> dispatches (theory Gateway) and how \<open>Run\<close> ends.
  The engine's books are private to the matching thread; other threads only see the mid prices, which
  \<open>OnOrderAdd\<close> publishes last, so the new router is installed when all pushes of an order are done.

  The history fields, whose names begin with \<open>h_\<close>, are not in the code. They record what was popped, pushed
  and settled, and whether a thread's last failed pop came after the stage feeding it had stopped.
\<close>

section \<open>State\<close>

text \<open>What the feed carries before it is encoded.\<close>

datatype feed_item = Add_item OrderAdd | Cancel_item OrderCancel | Trade_item Trade

fun encode_item :: "byte list \<Rightarrow> feed_item \<Rightarrow> WireMarketDataMessage" where
  "encode_item pad (Add_item order) = EncodeOrderAddEvent pad order"
| "encode_item pad (Cancel_item cancel) = EncodeOrderCancelEvent pad cancel"
| "encode_item pad (Trade_item trade) = EncodeTradeEvent pad trade"

datatype ME_output = To_market_data feed_item | To_trades Trade

datatype Gateway_pc = GW_run | GW_push InboundCommand | GW_stopped
datatype ME_pc = ME_pop | ME_check | ME_add OrderAdd | ME_emit "ME_output list" MatchingEngineRouter | ME_stopped
datatype Inventory_pc = IV_pop | IV_check | IV_settle Trade | IV_stopped
datatype Publisher_pc = MD_pop | MD_check | MD_send WireMarketDataMessage | MD_stopped
datatype Main_pc = Main_wait | Main_join_gateway | Main_join_matching | Main_join_inventory | Main_join_marketData
  | Main_snapshot | Main_done

record History =
  h_popped :: "InboundCommand list"
  h_fed :: "feed_item list"
  h_traded :: "Trade list"
  h_settled :: "((Ticker \<Rightarrow> Price option) \<times> Trade) list"
  h_quiet_matching :: bool
  h_quiet_inventory :: bool
  h_quiet_marketData :: bool

record ('qi, 'qm, 'qt) Exchange =
  x_inbound :: 'qi
  x_marketData :: 'qm
  x_trades :: 'qt
  x_router :: MatchingEngineRouter
  x_registry :: "double UserRegistry"
  x_shutdownRequested :: bool
  x_running :: bool
  x_gatewayFinished :: bool
  x_matchingEngineFinished :: bool
  x_todo :: "InboundCommand list"
  x_gatewayResult :: "exn option"
  x_gateway :: Gateway_pc
  x_matching :: ME_pc
  x_inventory :: Inventory_pc
  x_publisher :: Publisher_pc
  x_main :: Main_pc
  x_sent :: "(WireMarketDataMessage \<times> bool) list"
  x_snapshot :: "string option"
  x_terminated :: "exn option"
  x_history :: History

definition x_init ::
  "('qi, 'qm, 'qt) ExchangeQueues \<Rightarrow> InboundCommand list \<Rightarrow> exn option \<Rightarrow> ('qi, 'qm, 'qt) Exchange" where
  "x_init Q todo result =
     \<lparr>x_inbound = sq_new (q_inbound Q), x_marketData = sq_new (q_marketData Q), x_trades = sq_new (q_trades Q),
      x_router = new_Router, x_registry = new_UserRegistry, x_shutdownRequested = False, x_running = True,
      x_gatewayFinished = False, x_matchingEngineFinished = False, x_todo = todo, x_gatewayResult = result,
      x_gateway = GW_run, x_matching = ME_pop, x_inventory = IV_pop, x_publisher = MD_pop, x_main = Main_wait,
      x_sent = [], x_snapshot = None, x_terminated = None,
      x_history = \<lparr>h_popped = [], h_fed = [], h_traded = [], h_settled = [], h_quiet_matching = False,
        h_quiet_inventory = False, h_quiet_marketData = False\<rparr>\<rparr>"

section \<open>The threads\<close>

text \<open>The gateway thread: \<open>Dispatch\<close> retries while the queue is full; \<open>Run\<close> ends when \<open>Stop\<close> was called, or throws.\<close>

definition gateway_step :: "('qi, 'qm, 'qt) ExchangeQueues \<Rightarrow> ('qi, 'qm, 'qt) Exchange \<Rightarrow> ('qi, 'qm, 'qt) Exchange" where
  "gateway_step Q s =
     (case x_gateway s of
        GW_run \<Rightarrow>
          (case x_todo s of
             cmd # todo \<Rightarrow> s\<lparr>x_todo := todo, x_gateway := GW_push cmd\<rparr>
           | [] \<Rightarrow>
               (case x_gatewayResult s of
                  Some e \<Rightarrow> s\<lparr>x_terminated := Some e\<rparr>
                | None \<Rightarrow> if x_running s then s else s\<lparr>x_gateway := GW_stopped\<rparr>))
      | GW_push cmd \<Rightarrow>
          (case sq_push (q_inbound Q) cmd (x_inbound s) of
             None \<Rightarrow> s
           | Some q \<Rightarrow> s\<lparr>x_inbound := q, x_gateway := GW_run\<rparr>)
      | GW_stopped \<Rightarrow> s)"

text \<open>One iteration of \<open>PushBlocking\<close> on the queue an output goes to; \<open>None\<close> when the queue is full.\<close>

fun PushBlocking ::
  "('qi, 'qm, 'qt) ExchangeQueues \<Rightarrow> byte list \<Rightarrow> ME_output \<Rightarrow> ('qi, 'qm, 'qt) Exchange \<Rightarrow> ('qi, 'qm, 'qt) Exchange option" where
  "PushBlocking Q pad (To_market_data item) s =
     map_option (\<lambda>q. s\<lparr>x_marketData := q, x_history := (x_history s)\<lparr>h_fed := h_fed (x_history s) @ [item]\<rparr>\<rparr>)
       (sq_push (q_marketData Q) (encode_item pad item) (x_marketData s))"
| "PushBlocking Q pad (To_trades trade) s =
     map_option (\<lambda>q. s\<lparr>x_trades := q, x_history := (x_history s)\<lparr>h_traded := h_traded (x_history s) @ [trade]\<rparr>\<rparr>)
       (sq_push (q_trades Q) trade (x_trades s))"

text \<open>The callback of \<open>OnOrderAdd\<close>: a trade goes to the feed, then to settlement.\<close>

definition onTrade :: "Trade \<Rightarrow> ME_output list \<Rightarrow> ME_output list" where
  "onTrade trade outs = outs @ [To_market_data (Trade_item trade), To_trades trade]"

definition matching_step ::
  "('qi, 'qm, 'qt) ExchangeQueues \<Rightarrow> byte list \<Rightarrow> ('qi, 'qm, 'qt) Exchange \<Rightarrow> ('qi, 'qm, 'qt) Exchange" where
  "matching_step Q pad s =
     (case x_matching s of
        ME_pop \<Rightarrow>
          (case sq_pop (q_inbound Q) (x_inbound s) of
             None \<Rightarrow> s\<lparr>x_matching := ME_check,
                       x_history := (x_history s)\<lparr>h_quiet_matching := (x_gateway s = GW_stopped)\<rparr>\<rparr>
           | Some (cmd, q) \<Rightarrow>
               let s = s\<lparr>x_inbound := q, x_history := (x_history s)\<lparr>h_popped := h_popped (x_history s) @ [cmd]\<rparr>\<rparr>
               in case cmd of
                    CmdAdd order \<Rightarrow> s\<lparr>x_matching := ME_add order\<rparr>
                  | CmdCancel cancel \<Rightarrow>
                      let router = Router_OnOrderCancel cancel (x_router s)
                      in s\<lparr>x_router := router, x_matching := ME_emit [To_market_data (Cancel_item cancel)] router\<rparr>)
      | ME_check \<Rightarrow> if x_gatewayFinished s then s\<lparr>x_matching := ME_stopped\<rparr> else s\<lparr>x_matching := ME_pop\<rparr>
      | ME_add order \<Rightarrow>
          (case PushBlocking Q pad (To_market_data (Add_item order)) s of
             None \<Rightarrow> s
           | Some s \<Rightarrow>
               (case Router_OnOrderAdd order onTrade (x_router s) [] of
                  (router, outs) \<Rightarrow> s\<lparr>x_matching := ME_emit outs router\<rparr>))
      | ME_emit [] router \<Rightarrow> s\<lparr>x_router := router, x_matching := ME_pop\<rparr>
      | ME_emit (out # outs) router \<Rightarrow>
          (case PushBlocking Q pad out s of None \<Rightarrow> s | Some s \<Rightarrow> s\<lparr>x_matching := ME_emit outs router\<rparr>)
      | ME_stopped \<Rightarrow> s)"

text \<open>
  The inventory thread. The registry is its own until it is joined; the one thing it shares while it
  settles is the mid price, a \<open>Load\<close> of the seqlock, which spins forever where the model has \<open>None\<close>.
\<close>

definition inventory_step :: "('qi, 'qm, 'qt) ExchangeQueues \<Rightarrow> ('qi, 'qm, 'qt) Exchange \<Rightarrow> ('qi, 'qm, 'qt) Exchange" where
  "inventory_step Q s =
     (case x_inventory s of
        IV_pop \<Rightarrow>
          (case sq_pop (q_trades Q) (x_trades s) of
             None \<Rightarrow> s\<lparr>x_inventory := IV_check,
                       x_history := (x_history s)\<lparr>h_quiet_inventory := (x_matching s = ME_stopped)\<rparr>\<rparr>
           | Some (trade, q) \<Rightarrow> s\<lparr>x_trades := q, x_inventory := IV_settle trade\<rparr>)
      | IV_check \<Rightarrow> if x_matchingEngineFinished s then s\<lparr>x_inventory := IV_stopped\<rparr> else s\<lparr>x_inventory := IV_pop\<rparr>
      | IV_settle trade \<Rightarrow>
          (case Router_MidPrice (t_ticker trade) (x_router s) of
             None \<Rightarrow> s
           | Some mid \<Rightarrow>
               (case settle binary64 (\<lambda>ticker. mid) trade (x_registry s) of
                  Inl e \<Rightarrow> s\<lparr>x_terminated := Some e\<rparr>
                | Inr registry \<Rightarrow>
                    s\<lparr>x_registry := registry, x_inventory := IV_pop,
                      x_history := (x_history s)\<lparr>h_settled := h_settled (x_history s) @ [(\<lambda>ticker. mid, trade)]\<rparr>\<rparr>))
      | IV_stopped \<Rightarrow> s)"

text \<open>The market data thread; \<open>sent\<close> says whether the system took the datagram. A failure is only logged.\<close>

definition publisher_step ::
  "('qi, 'qm, 'qt) ExchangeQueues \<Rightarrow> bool \<Rightarrow> ('qi, 'qm, 'qt) Exchange \<Rightarrow> ('qi, 'qm, 'qt) Exchange" where
  "publisher_step Q sent s =
     (case x_publisher s of
        MD_pop \<Rightarrow>
          (case sq_pop (q_marketData Q) (x_marketData s) of
             None \<Rightarrow> s\<lparr>x_publisher := MD_check,
                       x_history := (x_history s)\<lparr>h_quiet_marketData := (x_matching s = ME_stopped)\<rparr>\<rparr>
           | Some (msg, q) \<Rightarrow> s\<lparr>x_marketData := q, x_publisher := MD_send msg\<rparr>)
      | MD_check \<Rightarrow> if x_matchingEngineFinished s then s\<lparr>x_publisher := MD_stopped\<rparr> else s\<lparr>x_publisher := MD_pop\<rparr>
      | MD_send msg \<Rightarrow> s\<lparr>x_sent := x_sent s @ [(msg, sent)], x_publisher := MD_pop\<rparr>
      | MD_stopped \<Rightarrow> s)"

definition HandleShutdownSignal :: "('qi, 'qm, 'qt) Exchange \<Rightarrow> ('qi, 'qm, 'qt) Exchange" where
  "HandleShutdownSignal s = s\<lparr>x_shutdownRequested := True\<rparr>"

definition INVENTORY_SNAPSHOT_PATH :: string where
  "INVENTORY_SNAPSHOT_PATH = ''inventory_snapshot.csv''"

text \<open>The main thread from the moment the workers run.\<close>

definition main_step ::
  "(string \<Rightarrow> bool) \<Rightarrow> ((Ticker \<rightharpoonup> double Holding) \<Rightarrow> (Ticker \<times> double Holding) list)
   \<Rightarrow> ('qi, 'qm, 'qt) Exchange \<Rightarrow> ('qi, 'qm, 'qt) Exchange" where
  "main_step can_open items s =
     (case x_main s of
        Main_wait \<Rightarrow> if x_shutdownRequested s then s\<lparr>x_running := False, x_main := Main_join_gateway\<rparr> else s
      | Main_join_gateway \<Rightarrow>
          if x_gateway s = GW_stopped then s\<lparr>x_gatewayFinished := True, x_main := Main_join_matching\<rparr> else s
      | Main_join_matching \<Rightarrow>
          if x_matching s = ME_stopped then s\<lparr>x_matchingEngineFinished := True, x_main := Main_join_inventory\<rparr> else s
      | Main_join_inventory \<Rightarrow> if x_inventory s = IV_stopped then s\<lparr>x_main := Main_join_marketData\<rparr> else s
      | Main_join_marketData \<Rightarrow> if x_publisher s = MD_stopped then s\<lparr>x_main := Main_snapshot\<rparr> else s
      | Main_snapshot \<Rightarrow>
          (case WriteSnapshot can_open items INVENTORY_SNAPSHOT_PATH (x_registry s) of
             Inl e \<Rightarrow> s\<lparr>x_terminated := Some e\<rparr>
           | Inr text \<Rightarrow> s\<lparr>x_snapshot := Some text, x_main := Main_done\<rparr>)
      | Main_done \<Rightarrow> s)"

section \<open>All interleavings\<close>

text \<open>The padding of an encoded event has indeterminate bytes but a fixed length.\<close>

definition pad_ok :: "byte list \<Rightarrow> bool" where
  "pad_ok pad \<longleftrightarrow> length pad = sizeof_WireTradeEvent - sizeof_WireOrderAdd"

datatype action = Do_gateway | Do_matching "byte list" | Do_inventory | Do_publisher bool | Do_main | Do_signal

record ('qi, 'qm, 'qt) Env =
  e_queues :: "('qi, 'qm, 'qt) ExchangeQueues"
  e_can_open :: "string \<Rightarrow> bool"
  e_items :: "(Ticker \<rightharpoonup> double Holding) \<Rightarrow> (Ticker \<times> double Holding) list"

fun act :: "('qi, 'qm, 'qt) Env \<Rightarrow> action \<Rightarrow> ('qi, 'qm, 'qt) Exchange \<Rightarrow> ('qi, 'qm, 'qt) Exchange" where
  "act E Do_gateway s = gateway_step (e_queues E) s"
| "act E (Do_matching pad) s = matching_step (e_queues E) pad s"
| "act E Do_inventory s = inventory_step (e_queues E) s"
| "act E (Do_publisher sent) s = publisher_step (e_queues E) sent s"
| "act E Do_main s = main_step (e_can_open E) (e_items E) s"
| "act E Do_signal s = HandleShutdownSignal s"

fun action_ok :: "action \<Rightarrow> bool" where
  "action_ok (Do_matching pad) = pad_ok pad"
| "action_ok _ = True"

inductive x_step :: "('qi, 'qm, 'qt) Env \<Rightarrow> ('qi, 'qm, 'qt) Exchange \<Rightarrow> ('qi, 'qm, 'qt) Exchange \<Rightarrow> bool" for E where
  step: "x_terminated s = None \<Longrightarrow> action_ok a \<Longrightarrow> x_step E s (act E a s)"

inductive x_steps :: "('qi, 'qm, 'qt) Env \<Rightarrow> ('qi, 'qm, 'qt) Exchange \<Rightarrow> ('qi, 'qm, 'qt) Exchange \<Rightarrow> bool" for E s where
  none: "x_steps E s s"
| more: "x_steps E s t \<Longrightarrow> x_step E t u \<Longrightarrow> x_steps E s u"

text \<open>The states an exchange reaches whose gateway dispatches \<open>cmds\<close> and then ends with \<open>result\<close>.\<close>

definition x_reach ::
  "('qi, 'qm, 'qt) Env \<Rightarrow> InboundCommand list \<Rightarrow> exn option \<Rightarrow> ('qi, 'qm, 'qt) Exchange \<Rightarrow> bool" where
  "x_reach E cmds result s \<longleftrightarrow> x_steps E (x_init (e_queues E) cmds result) s"

fun perform :: "('qi, 'qm, 'qt) Env \<Rightarrow> action list \<Rightarrow> ('qi, 'qm, 'qt) Exchange \<Rightarrow> ('qi, 'qm, 'qt) Exchange" where
  "perform E [] s = s"
| "perform E (a # as) s = (if x_terminated s = None \<and> action_ok a then perform E as (act E a s) else s)"

lemma x_steps_trans: "x_steps E t u \<Longrightarrow> x_steps E s t \<Longrightarrow> x_steps E s u"
  by (induction rule: x_steps.induct) (auto intro: x_steps.more)

lemma x_steps_act: "x_terminated s = None \<Longrightarrow> action_ok a \<Longrightarrow> x_steps E s (act E a s)"
  by (blast intro: x_steps.intros x_step.intros)

lemma x_steps_perform: "x_steps E s (perform E as s)"
  by (induction as arbitrary: s) (auto intro: x_steps.none x_steps_trans x_steps_act)

end
