(* ===== verification/Exchange_Invariants.thy ===== *)
theory Exchange_Invariants
  imports Exchange "HOL-Library.Sublist"
begin

text \<open>
  The invariants of the running exchange: what flows through each queue, what the engine has done, and
  what the flags and the joins imply. The sequential exchange, which handles one command after the
  other and knows no queues, is the reference.
\<close>

section \<open>The sequential exchange\<close>

definition book_after :: "InboundCommand list \<Rightarrow> MatchingEngineRouter" where
  "book_after cmds = fst (run router_step cmds new_Router)"

definition trades_of :: "InboundCommand list \<Rightarrow> Trade list" where
  "trades_of cmds = snd (run router_step cmds new_Router)"

fun feed_step :: "InboundCommand \<Rightarrow> MatchingEngineRouter \<Rightarrow> MatchingEngineRouter \<times> feed_item list" where
  "feed_step (CmdAdd order) r =
     (case router_step (CmdAdd order) r of (r, ts) \<Rightarrow> (r, Add_item order # map Trade_item ts))"
| "feed_step (CmdCancel cancel) r = (fst (router_step (CmdCancel cancel) r), [Cancel_item cancel])"

definition feed_of :: "InboundCommand list \<Rightarrow> feed_item list" where
  "feed_of cmds = snd (run feed_step cmds new_Router)"

lemma run_snoc:
  "run f (cs @ [c]) e = (case run f cs e of (e, out) \<Rightarrow> case f c e of (e, out') \<Rightarrow> (e, out @ out'))"
  by (induction cs arbitrary: e) (auto split: prod.splits)

lemma run_feed_router: "fst (run feed_step cs r) = fst (run router_step cs r)"
proof (induction cs arbitrary: r)
  case (Cons c cs)
  have "fst (feed_step c r) = fst (router_step c r)" by (cases c) (simp_all split: prod.splits)
  then show ?case using Cons by (simp add: case_prod_beta)
qed simp

lemma sequential_Nil [simp]: "book_after [] = new_Router" "trades_of [] = []" "feed_of [] = []"
  by (simp_all add: book_after_def trades_of_def feed_of_def)

lemma sequential_snoc:
  "book_after (cs @ [c]) = fst (router_step c (book_after cs))"
  "trades_of (cs @ [c]) = trades_of cs @ snd (router_step c (book_after cs))"
  "feed_of (cs @ [c]) = feed_of cs @ snd (feed_step c (book_after cs))"
  by (simp_all add: book_after_def trades_of_def feed_of_def run_snoc run_feed_router [symmetric] case_prod_beta)

lemma router_ok_book_after: "router_ok (book_after cs)"
  by (simp add: book_after_def run_ok router_ok_new)

lemma Router_OnOrderAdd_handler:
  "Router_OnOrderAdd order h r s = (case router_step (CmdAdd order) r of (r, ts) \<Rightarrow> (r, fold h ts s))"
  by (simp add: Router_OnOrderAdd_def Let_def OnOrderAdd_handler [of order h] AddOrder_def [symmetric] split: prod.splits)

text \<open>The outputs that wait to be pushed, by queue.\<close>

fun feed_part :: "ME_output \<Rightarrow> feed_item list" where
  "feed_part (To_market_data item) = [item]"
| "feed_part (To_trades trade) = []"

fun trade_part :: "ME_output \<Rightarrow> Trade list" where
  "trade_part (To_market_data item) = []"
| "trade_part (To_trades trade) = [trade]"

lemma onTrade_parts:
  "concat (map feed_part (fold onTrade ts outs)) = concat (map feed_part outs) @ map Trade_item ts"
  "concat (map trade_part (fold onTrade ts outs)) = concat (map trade_part outs) @ ts"
  by (induction ts arbitrary: outs) (simp_all add: onTrade_def)

section \<open>What each thread leaves alone\<close>

lemma gateway_frame [simp]:
  "x_marketData (gateway_step Q s) = x_marketData s" "x_trades (gateway_step Q s) = x_trades s"
  "x_router (gateway_step Q s) = x_router s" "x_registry (gateway_step Q s) = x_registry s"
  "x_running (gateway_step Q s) = x_running s" "x_gatewayFinished (gateway_step Q s) = x_gatewayFinished s"
  "x_matchingEngineFinished (gateway_step Q s) = x_matchingEngineFinished s"
  "x_shutdownRequested (gateway_step Q s) = x_shutdownRequested s"
  "x_matching (gateway_step Q s) = x_matching s" "x_inventory (gateway_step Q s) = x_inventory s"
  "x_publisher (gateway_step Q s) = x_publisher s" "x_main (gateway_step Q s) = x_main s"
  "x_sent (gateway_step Q s) = x_sent s" "x_snapshot (gateway_step Q s) = x_snapshot s"
  "x_history (gateway_step Q s) = x_history s" "x_gatewayResult (gateway_step Q s) = x_gatewayResult s"
  by (auto simp: gateway_step_def split: Gateway_pc.splits list.splits option.splits)

lemma inventory_frame [simp]:
  "x_inbound (inventory_step Q s) = x_inbound s" "x_marketData (inventory_step Q s) = x_marketData s"
  "x_router (inventory_step Q s) = x_router s" "x_running (inventory_step Q s) = x_running s"
  "x_gatewayFinished (inventory_step Q s) = x_gatewayFinished s"
  "x_matchingEngineFinished (inventory_step Q s) = x_matchingEngineFinished s"
  "x_shutdownRequested (inventory_step Q s) = x_shutdownRequested s"
  "x_todo (inventory_step Q s) = x_todo s" "x_gatewayResult (inventory_step Q s) = x_gatewayResult s"
  "x_gateway (inventory_step Q s) = x_gateway s" "x_matching (inventory_step Q s) = x_matching s"
  "x_publisher (inventory_step Q s) = x_publisher s" "x_main (inventory_step Q s) = x_main s"
  "x_sent (inventory_step Q s) = x_sent s" "x_snapshot (inventory_step Q s) = x_snapshot s"
  "h_popped (x_history (inventory_step Q s)) = h_popped (x_history s)"
  "h_fed (x_history (inventory_step Q s)) = h_fed (x_history s)"
  "h_traded (x_history (inventory_step Q s)) = h_traded (x_history s)"
  "h_quiet_matching (x_history (inventory_step Q s)) = h_quiet_matching (x_history s)"
  "h_quiet_marketData (x_history (inventory_step Q s)) = h_quiet_marketData (x_history s)"
  by (auto simp: inventory_step_def split: Inventory_pc.splits option.splits sum.splits)

lemma publisher_frame [simp]:
  "x_inbound (publisher_step Q sent s) = x_inbound s" "x_trades (publisher_step Q sent s) = x_trades s"
  "x_router (publisher_step Q sent s) = x_router s" "x_registry (publisher_step Q sent s) = x_registry s"
  "x_running (publisher_step Q sent s) = x_running s" "x_gatewayFinished (publisher_step Q sent s) = x_gatewayFinished s"
  "x_matchingEngineFinished (publisher_step Q sent s) = x_matchingEngineFinished s"
  "x_shutdownRequested (publisher_step Q sent s) = x_shutdownRequested s"
  "x_todo (publisher_step Q sent s) = x_todo s" "x_gatewayResult (publisher_step Q sent s) = x_gatewayResult s"
  "x_gateway (publisher_step Q sent s) = x_gateway s" "x_matching (publisher_step Q sent s) = x_matching s"
  "x_inventory (publisher_step Q sent s) = x_inventory s" "x_main (publisher_step Q sent s) = x_main s"
  "x_snapshot (publisher_step Q sent s) = x_snapshot s" "x_terminated (publisher_step Q sent s) = x_terminated s"
  "h_popped (x_history (publisher_step Q sent s)) = h_popped (x_history s)"
  "h_fed (x_history (publisher_step Q sent s)) = h_fed (x_history s)"
  "h_traded (x_history (publisher_step Q sent s)) = h_traded (x_history s)"
  "h_settled (x_history (publisher_step Q sent s)) = h_settled (x_history s)"
  "h_quiet_matching (x_history (publisher_step Q sent s)) = h_quiet_matching (x_history s)"
  "h_quiet_inventory (x_history (publisher_step Q sent s)) = h_quiet_inventory (x_history s)"
  by (auto simp: publisher_step_def split: Publisher_pc.splits option.splits)

lemma main_frame [simp]:
  "x_inbound (main_step c i s) = x_inbound s" "x_marketData (main_step c i s) = x_marketData s"
  "x_trades (main_step c i s) = x_trades s" "x_router (main_step c i s) = x_router s"
  "x_registry (main_step c i s) = x_registry s" "x_shutdownRequested (main_step c i s) = x_shutdownRequested s"
  "x_todo (main_step c i s) = x_todo s" "x_gatewayResult (main_step c i s) = x_gatewayResult s"
  "x_gateway (main_step c i s) = x_gateway s" "x_matching (main_step c i s) = x_matching s"
  "x_inventory (main_step c i s) = x_inventory s" "x_publisher (main_step c i s) = x_publisher s"
  "x_sent (main_step c i s) = x_sent s" "x_history (main_step c i s) = x_history s"
  by (auto simp: main_step_def split: Main_pc.splits sum.splits)

lemma signal_frame [simp]:
  "x_inbound (HandleShutdownSignal s) = x_inbound s" "x_marketData (HandleShutdownSignal s) = x_marketData s"
  "x_trades (HandleShutdownSignal s) = x_trades s" "x_router (HandleShutdownSignal s) = x_router s"
  "x_registry (HandleShutdownSignal s) = x_registry s" "x_running (HandleShutdownSignal s) = x_running s"
  "x_gatewayFinished (HandleShutdownSignal s) = x_gatewayFinished s" "x_matchingEngineFinished (HandleShutdownSignal s) = x_matchingEngineFinished s"
  "x_todo (HandleShutdownSignal s) = x_todo s" "x_gatewayResult (HandleShutdownSignal s) = x_gatewayResult s"
  "x_gateway (HandleShutdownSignal s) = x_gateway s" "x_matching (HandleShutdownSignal s) = x_matching s"
  "x_inventory (HandleShutdownSignal s) = x_inventory s" "x_publisher (HandleShutdownSignal s) = x_publisher s"
  "x_main (HandleShutdownSignal s) = x_main s" "x_sent (HandleShutdownSignal s) = x_sent s"
  "x_snapshot (HandleShutdownSignal s) = x_snapshot s" "x_terminated (HandleShutdownSignal s) = x_terminated s"
  "x_history (HandleShutdownSignal s) = x_history s"
  by (simp_all add: HandleShutdownSignal_def)

section \<open>Invariants\<close>

definition encoded :: "WireMarketDataMessage \<Rightarrow> feed_item \<Rightarrow> bool" where
  "encoded msg item \<longleftrightarrow> (\<exists>pad. pad_ok pad \<and> msg = encode_item pad item)"

fun gateway_pending :: "Gateway_pc \<Rightarrow> InboundCommand list" where
  "gateway_pending (GW_push cmd) = [cmd]"
| "gateway_pending _ = []"

fun inventory_pending :: "Inventory_pc \<Rightarrow> Trade list" where
  "inventory_pending (IV_settle trade) = [trade]"
| "inventory_pending _ = []"

fun publisher_pending :: "Publisher_pc \<Rightarrow> WireMarketDataMessage list" where
  "publisher_pending (MD_send msg) = [msg]"
| "publisher_pending _ = []"

text \<open>What the matching thread has done with the commands it took, at each of its points.\<close>

fun engine_ok :: "History \<Rightarrow> MatchingEngineRouter \<Rightarrow> ME_pc \<Rightarrow> bool" where
  "engine_ok h r (ME_add order) \<longleftrightarrow>
     (\<exists>cs. h_popped h = cs @ [CmdAdd order] \<and> r = book_after cs \<and> h_fed h = feed_of cs \<and> h_traded h = trades_of cs)"
| "engine_ok h r (ME_emit outs r') \<longleftrightarrow>
     router_ok r \<and> r' = book_after (h_popped h) \<and>
     h_fed h @ concat (map feed_part outs) = feed_of (h_popped h) \<and>
     h_traded h @ concat (map trade_part outs) = trades_of (h_popped h)"
| "engine_ok h r _ \<longleftrightarrow>
     r = book_after (h_popped h) \<and> h_fed h = feed_of (h_popped h) \<and> h_traded h = trades_of (h_popped h)"

text \<open>The order in which the stages stop, as far as the flags and the joins enforce it.\<close>

definition stages_ok :: "('qi, 'qm, 'qt) Exchange \<Rightarrow> bool" where
  "stages_ok s \<longleftrightarrow>
     (x_gateway s = GW_stopped \<longrightarrow> x_todo s = [] \<and> \<not> x_running s) \<and>
     (x_main s = Main_wait \<longleftrightarrow> x_running s) \<and>
     (x_gatewayFinished s \<longleftrightarrow> x_main s \<notin> {Main_wait, Main_join_gateway}) \<and>
     (x_gatewayFinished s \<longrightarrow> x_gateway s = GW_stopped) \<and>
     (x_matching s = ME_stopped \<longrightarrow> x_gatewayFinished s) \<and>
     (x_matchingEngineFinished s \<longleftrightarrow>
        x_main s \<in> {Main_join_inventory, Main_join_marketData, Main_snapshot, Main_done}) \<and>
     (x_matchingEngineFinished s \<longrightarrow> x_matching s = ME_stopped) \<and>
     (x_inventory s = IV_stopped \<longrightarrow> x_matchingEngineFinished s) \<and>
     (x_publisher s = MD_stopped \<longrightarrow> x_matchingEngineFinished s) \<and>
     (x_main s \<in> {Main_join_marketData, Main_snapshot, Main_done} \<longrightarrow> x_inventory s = IV_stopped) \<and>
     (x_main s \<in> {Main_snapshot, Main_done} \<longrightarrow> x_publisher s = MD_stopped)"

declare PushBlocking.simps [simp del] encode_item.simps [simp del]

text \<open>The accounts are those of the settled trades; a finished \<open>main\<close> has written them.\<close>

definition accounts_ok :: "('qi, 'qm, 'qt) Exchange \<Rightarrow> bool" where
  "accounts_ok s \<longleftrightarrow> settle_all binary64 (h_settled (x_history s)) new_UserRegistry = Inr (x_registry s)"

definition snapshot_ok ::
  "(string \<Rightarrow> bool) \<Rightarrow> ((Ticker \<rightharpoonup> double Holding) \<Rightarrow> (Ticker \<times> double Holding) list) \<Rightarrow> ('qi, 'qm, 'qt) Exchange \<Rightarrow> bool" where
  "snapshot_ok can_open items s \<longleftrightarrow>
     (x_main s = Main_done \<longrightarrow>
        (\<exists>text. x_snapshot s = Some text \<and> WriteSnapshot can_open items INVENTORY_SNAPSHOT_PATH (x_registry s) = Inr text))"

lemma settle_all_snoc: "settle_all A (ts @ [(mid, t)]) reg = bind_res (settle_all A ts reg) (settle A mid t)"
proof (induction ts arbitrary: reg)
  case Nil
  show ?case by (cases "settle A mid t reg") simp_all
next
  case (Cons x ts)
  then show ?case by (cases x; cases "settle A (fst x) (snd x) reg") simp_all
qed

lemma accounts_ok_inventory: "accounts_ok s \<Longrightarrow> accounts_ok (inventory_step Q s)"
  by (auto simp: accounts_ok_def inventory_step_def settle_all_snoc split: Inventory_pc.splits option.splits sum.splits)

lemma stages_ok_step:
  assumes "stages_ok s"
  shows "stages_ok (gateway_step Q s)" "stages_ok (inventory_step Q s)" "stages_ok (publisher_step Q sent s)"
    "stages_ok (main_step can_open items s)" "stages_ok (HandleShutdownSignal s)"
proof -
  show "stages_ok (gateway_step Q s)"
    using assms by (cases "x_gateway s")
      (auto simp: stages_ok_def gateway_step_def split: list.splits option.splits)
  show "stages_ok (inventory_step Q s)"
    using assms by (cases "x_inventory s") (auto simp: stages_ok_def inventory_step_def split: option.splits sum.splits)
  show "stages_ok (publisher_step Q sent s)"
    using assms by (cases "x_publisher s") (auto simp: stages_ok_def publisher_step_def split: option.splits)
  show "stages_ok (main_step can_open items s)"
    using assms by (cases "x_main s") (auto simp: stages_ok_def main_step_def split: sum.splits)
  show "stages_ok (HandleShutdownSignal s)"
    using assms unfolding stages_ok_def signal_frame by assumption
qed

lemma accounts_ok_step:
  assumes "accounts_ok s"
  shows "accounts_ok (gateway_step Q s)" "accounts_ok (publisher_step Q sent s)" "accounts_ok (main_step can_open items s)"
    "accounts_ok (HandleShutdownSignal s)"
  using assms by (simp_all add: accounts_ok_def)

context exchange_queues
begin

definition inbound_ok :: "InboundCommand list \<Rightarrow> ('qi, 'qm, 'qt) Exchange \<Rightarrow> bool" where
  "inbound_ok cmds s \<longleftrightarrow>
     h_popped (x_history s) @ inboundItems (x_inbound s) @ gateway_pending (x_gateway s) @ x_todo s = cmds"

definition feed_ok :: "('qi, 'qm, 'qt) Exchange \<Rightarrow> bool" where
  "feed_ok s \<longleftrightarrow>
     list_all2 encoded (map fst (x_sent s) @ publisher_pending (x_publisher s) @ marketDataItems (x_marketData s))
       (h_fed (x_history s))"

definition trades_ok :: "('qi, 'qm, 'qt) Exchange \<Rightarrow> bool" where
  "trades_ok s \<longleftrightarrow>
     map snd (h_settled (x_history s)) @ inventory_pending (x_inventory s) @ tradeItems (x_trades s) = h_traded (x_history s)"

definition quiet_ok :: "('qi, 'qm, 'qt) Exchange \<Rightarrow> bool" where
  "quiet_ok s \<longleftrightarrow>
     (h_quiet_matching (x_history s) \<and> x_matching s \<in> {ME_check, ME_stopped} \<longrightarrow>
        x_gateway s = GW_stopped \<and> inboundItems (x_inbound s) = []) \<and>
     (h_quiet_inventory (x_history s) \<and> x_inventory s \<in> {IV_check, IV_stopped} \<longrightarrow>
        x_matching s = ME_stopped \<and> tradeItems (x_trades s) = []) \<and>
     (h_quiet_marketData (x_history s) \<and> x_publisher s \<in> {MD_check, MD_stopped} \<longrightarrow>
        x_matching s = ME_stopped \<and> marketDataItems (x_marketData s) = [])"

lemma PushBlocking_SomeE:
  assumes "PushBlocking Q pad out s = Some s'"
  obtains item q where "out = To_market_data item" "marketDataItems q = marketDataItems (x_marketData s) @ [encode_item pad item]"
      "s' = s\<lparr>x_marketData := q, x_history := (x_history s)\<lparr>h_fed := h_fed (x_history s) @ [item]\<rparr>\<rparr>"
  | trade q where "out = To_trades trade" "tradeItems q = tradeItems (x_trades s) @ [trade]"
      "s' = s\<lparr>x_trades := q, x_history := (x_history s)\<lparr>h_traded := h_traded (x_history s) @ [trade]\<rparr>\<rparr>"
proof (cases out)
  case (To_market_data item)
  then obtain q where "sq_push (q_marketData Q) (encode_item pad item) (x_marketData s) = Some q"
    "s' = s\<lparr>x_marketData := q, x_history := (x_history s)\<lparr>h_fed := h_fed (x_history s) @ [item]\<rparr>\<rparr>"
    using assms by (auto simp: PushBlocking.simps)
  then show ?thesis using that(1) To_market_data marketData.push_back by blast
next
  case (To_trades trade)
  then obtain q where "sq_push (q_trades Q) trade (x_trades s) = Some q"
    "s' = s\<lparr>x_trades := q, x_history := (x_history s)\<lparr>h_traded := h_traded (x_history s) @ [trade]\<rparr>\<rparr>"
    using assms by (auto simp: PushBlocking.simps)
  then show ?thesis using that(2) To_trades trades.push_back by blast
qed

text \<open>The outcomes of a step of the matching thread.\<close>

lemma matching_step_cases:
  obtains (idle) "matching_step Q pad s = s" "x_matching s = ME_stopped \<or> (\<exists>out. PushBlocking Q pad out s = None)"
  | (empty) "x_matching s = ME_pop" "inboundItems (x_inbound s) = []"
      "matching_step Q pad s = s\<lparr>x_matching := ME_check,
         x_history := (x_history s)\<lparr>h_quiet_matching := (x_gateway s = GW_stopped)\<rparr>\<rparr>"
  | (add) order q where "x_matching s = ME_pop" "inboundItems (x_inbound s) = CmdAdd order # inboundItems q"
      "matching_step Q pad s = s\<lparr>x_inbound := q,
         x_history := (x_history s)\<lparr>h_popped := h_popped (x_history s) @ [CmdAdd order]\<rparr>, x_matching := ME_add order\<rparr>"
  | (cancel) cancel q where "x_matching s = ME_pop" "inboundItems (x_inbound s) = CmdCancel cancel # inboundItems q"
      "matching_step Q pad s = s\<lparr>x_inbound := q,
         x_history := (x_history s)\<lparr>h_popped := h_popped (x_history s) @ [CmdCancel cancel]\<rparr>,
         x_router := Router_OnOrderCancel cancel (x_router s),
         x_matching := ME_emit [To_market_data (Cancel_item cancel)] (Router_OnOrderCancel cancel (x_router s))\<rparr>"
  | (stop) "x_matching s = ME_check" "x_gatewayFinished s" "matching_step Q pad s = s\<lparr>x_matching := ME_stopped\<rparr>"
  | (again) "x_matching s = ME_check" "\<not> x_gatewayFinished s" "matching_step Q pad s = s\<lparr>x_matching := ME_pop\<rparr>"
  | (match) order s' where "x_matching s = ME_add order" "PushBlocking Q pad (To_market_data (Add_item order)) s = Some s'"
      "matching_step Q pad s = s'\<lparr>x_matching := ME_emit (fold onTrade (snd (router_step (CmdAdd order) (x_router s))) [])
         (fst (router_step (CmdAdd order) (x_router s)))\<rparr>"
  | (emitted) router where "x_matching s = ME_emit [] router"
      "matching_step Q pad s = s\<lparr>x_router := router, x_matching := ME_pop\<rparr>"
  | (emit) out outs router s' where "x_matching s = ME_emit (out # outs) router" "PushBlocking Q pad out s = Some s'"
      "matching_step Q pad s = s'\<lparr>x_matching := ME_emit outs router\<rparr>"
proof (cases "x_matching s")
  case ME_pop
  show ?thesis
  proof (cases "sq_pop (q_inbound Q) (x_inbound s)")
    case None
    then show ?thesis
      using empty [OF ME_pop] inbound.pop_empty [of "x_inbound s"] by (simp add: matching_step_def ME_pop)
  next
    case (Some x)
    obtain cmd q where x: "x = (cmd, q)" by (cases x)
    note pop = inbound.pop_front [OF Some [unfolded x]]
    show ?thesis
      using Some x add [OF ME_pop, of _ q] cancel [OF ME_pop, of _ q] pop
      by (cases cmd) (simp_all add: matching_step_def ME_pop Let_def)
  qed
next
  case ME_check
  then show ?thesis using stop again by (cases "x_gatewayFinished s") (auto simp: matching_step_def)
next
  case (ME_add order)
  show ?thesis
  proof (cases "PushBlocking Q pad (To_market_data (Add_item order)) s")
    case None
    then show ?thesis using idle ME_add by (auto simp: matching_step_def)
  next
    case (Some s')
    moreover from this have "x_router s' = x_router s" by (auto elim!: PushBlocking_SomeE)
    ultimately show ?thesis
      using match [OF ME_add Some] by (simp add: matching_step_def ME_add Router_OnOrderAdd_handler [of order onTrade] case_prod_beta)
  qed
next
  case (ME_emit outs router)
  then show ?thesis
    using idle emitted emit
    by (cases outs; cases "PushBlocking Q pad (hd outs) s") (auto simp: matching_step_def)
next
  case ME_stopped
  then show ?thesis using idle by (simp add: matching_step_def)
qed

lemma inbound_ok_step:
  assumes "inbound_ok cmds s"
  shows "inbound_ok cmds (gateway_step Q s)" "inbound_ok cmds (matching_step Q pad s)" "inbound_ok cmds (inventory_step Q s)"
    "inbound_ok cmds (publisher_step Q sent s)" "inbound_ok cmds (main_step can_open items s)"
    "inbound_ok cmds (HandleShutdownSignal s)"
proof -
  show "inbound_ok cmds (matching_step Q pad s)"
    using assms by (cases rule: matching_step_cases [of pad s]) (auto simp: inbound_ok_def elim!: PushBlocking_SomeE)
  show "inbound_ok cmds (gateway_step Q s)"
    using assms
    by (auto simp: inbound_ok_def gateway_step_def dest!: inbound.push_back split: Gateway_pc.splits list.splits option.splits)
qed (use assms in \<open>simp_all add: inbound_ok_def\<close>)

lemma engine_ok_matching:
  "engine_ok (x_history s) (x_router s) (x_matching s) \<Longrightarrow>
   engine_ok (x_history (matching_step Q pad s)) (x_router (matching_step Q pad s)) (x_matching (matching_step Q pad s))"
proof (cases rule: matching_step_cases [of pad s])
  case (cancel c q)
  assume "engine_ok (x_history s) (x_router s) (x_matching s)"
  with cancel show ?thesis
    using router_step_ok [OF router_ok_book_after, of "CmdCancel c" "h_popped (x_history s)"]
    by (simp add: sequential_snoc)
next
  case (match order s')
  assume "engine_ok (x_history s) (x_router s) (x_matching s)"
  with match show ?thesis
    by (auto simp: sequential_snoc onTrade_parts router_ok_book_after case_prod_beta elim!: PushBlocking_SomeE)
next
  case (emit out outs router s')
  assume "engine_ok (x_history s) (x_router s) (x_matching s)"
  with emit show ?thesis by (auto elim!: PushBlocking_SomeE)
qed (auto simp: router_ok_book_after)

lemma engine_ok_cong:
  "h_popped h = h_popped h' \<Longrightarrow> h_fed h = h_fed h' \<Longrightarrow> h_traded h = h_traded h' \<Longrightarrow> engine_ok h r pc = engine_ok h' r pc"
  by (cases pc) simp_all

lemma feed_ok_step:
  assumes "feed_ok s"
  shows "feed_ok (gateway_step Q s)" "pad_ok pad \<Longrightarrow> feed_ok (matching_step Q pad s)" "feed_ok (inventory_step Q s)"
    "feed_ok (publisher_step Q sent s)" "feed_ok (main_step can_open items s)" "feed_ok (HandleShutdownSignal s)"
proof -
  assume pad: "pad_ok pad"
  have app: "list_all2 encoded (xs @ ys @ zs @ [encode_item pad item]) (is @ [item])"
    if "list_all2 encoded (xs @ ys @ zs) is" for xs ys zs "is" item
    using list_all2_appendI [OF that, of "[encode_item pad item]" "[item]"] pad by (auto simp: encoded_def)
  show "feed_ok (matching_step Q pad s)"
    using assms by (cases rule: matching_step_cases [of pad s]) (auto simp: feed_ok_def elim!: PushBlocking_SomeE intro!: app)
next
  show "feed_ok (publisher_step Q sent s)"
    using assms
    by (auto simp: feed_ok_def publisher_step_def dest!: marketData.pop_front split: Publisher_pc.splits option.splits)
qed (use assms in \<open>simp_all add: feed_ok_def\<close>)

lemma trades_ok_step:
  assumes "trades_ok s"
  shows "trades_ok (gateway_step Q s)" "trades_ok (matching_step Q pad s)" "trades_ok (inventory_step Q s)"
    "trades_ok (publisher_step Q sent s)" "trades_ok (main_step can_open items s)" "trades_ok (HandleShutdownSignal s)"
proof -
  show "trades_ok (matching_step Q pad s)"
    using assms by (cases rule: matching_step_cases [of pad s]) (auto simp: trades_ok_def elim!: PushBlocking_SomeE)
  show "trades_ok (inventory_step Q s)"
    using assms
    by (auto simp: trades_ok_def inventory_step_def dest!: trades.pop_front split: Inventory_pc.splits option.splits sum.splits)
qed (use assms in \<open>simp_all add: trades_ok_def\<close>)

lemma matching_frame [simp]:
  "x_registry (matching_step Q pad s) = x_registry s" "x_running (matching_step Q pad s) = x_running s"
  "x_gatewayFinished (matching_step Q pad s) = x_gatewayFinished s"
  "x_matchingEngineFinished (matching_step Q pad s) = x_matchingEngineFinished s"
  "x_shutdownRequested (matching_step Q pad s) = x_shutdownRequested s"
  "x_todo (matching_step Q pad s) = x_todo s" "x_gatewayResult (matching_step Q pad s) = x_gatewayResult s"
  "x_gateway (matching_step Q pad s) = x_gateway s" "x_inventory (matching_step Q pad s) = x_inventory s"
  "x_publisher (matching_step Q pad s) = x_publisher s" "x_main (matching_step Q pad s) = x_main s"
  "x_sent (matching_step Q pad s) = x_sent s" "x_snapshot (matching_step Q pad s) = x_snapshot s"
  "x_terminated (matching_step Q pad s) = x_terminated s"
  "h_settled (x_history (matching_step Q pad s)) = h_settled (x_history s)"
  "h_quiet_inventory (x_history (matching_step Q pad s)) = h_quiet_inventory (x_history s)"
  "h_quiet_marketData (x_history (matching_step Q pad s)) = h_quiet_marketData (x_history s)"
  by (cases rule: matching_step_cases [of pad s]; auto elim!: PushBlocking_SomeE)+

lemma matching_stopped: "x_matching s = ME_stopped \<Longrightarrow> matching_step Q pad s = s"
  by (simp add: matching_step_def)

lemma matching_stops: "x_matching (matching_step Q pad s) = ME_stopped \<Longrightarrow> x_matching s = ME_stopped \<or> x_gatewayFinished s"
  by (cases rule: matching_step_cases [of pad s]) auto

lemma stages_ok_matching: "stages_ok s \<Longrightarrow> stages_ok (matching_step Q pad s)"
  using matching_stops [of pad s] matching_stopped [of s pad] by (auto simp: stages_ok_def)

lemma quiet_ok_step:
  assumes "quiet_ok s"
  shows "quiet_ok (gateway_step Q s)" "quiet_ok (matching_step Q pad s)" "quiet_ok (inventory_step Q s)"
    "quiet_ok (publisher_step Q sent s)" "quiet_ok (main_step can_open items s)" "quiet_ok (HandleShutdownSignal s)"
proof -
  show "quiet_ok (gateway_step Q s)"
    using assms by (cases "x_gateway s") (auto simp: quiet_ok_def gateway_step_def split: list.splits option.splits)
  show "quiet_ok (matching_step Q pad s)"
  proof (cases "x_matching s = ME_stopped")
    case True
    then show ?thesis using assms by (simp add: matching_stopped)
  next
    case False
    then show ?thesis
      using assms by (cases rule: matching_step_cases [of pad s]) (auto simp: quiet_ok_def elim!: PushBlocking_SomeE)
  qed
  show "quiet_ok (inventory_step Q s)"
    using assms by (cases "x_inventory s")
      (auto simp: quiet_ok_def inventory_step_def trades.pop_empty dest!: trades.pop_front split: option.splits sum.splits)
  show "quiet_ok (publisher_step Q sent s)"
    using assms by (cases "x_publisher s")
      (auto simp: quiet_ok_def publisher_step_def marketData.pop_empty dest!: marketData.pop_front split: option.splits)
qed (use assms in \<open>simp_all add: quiet_ok_def\<close>)

definition x_inv ::
  "(string \<Rightarrow> bool) \<Rightarrow> ((Ticker \<rightharpoonup> double Holding) \<Rightarrow> (Ticker \<times> double Holding) list)
   \<Rightarrow> InboundCommand list \<Rightarrow> ('qi, 'qm, 'qt) Exchange \<Rightarrow> bool" where
  "x_inv can_open items cmds s \<longleftrightarrow>
     inbound_ok cmds s \<and> engine_ok (x_history s) (x_router s) (x_matching s) \<and> feed_ok s \<and> trades_ok s \<and>
     accounts_ok s \<and> stages_ok s \<and> quiet_ok s \<and> snapshot_ok can_open items s"

lemma x_inv_init: "x_inv can_open items cmds (x_init Q cmds result)"
  by (simp add: x_inv_def x_init_def inbound_ok_def feed_ok_def trades_ok_def accounts_ok_def stages_ok_def quiet_ok_def
      snapshot_ok_def inbound.new_empty marketData.new_empty trades.new_empty)

lemma snapshot_ok_step:
  assumes "snapshot_ok can_open items s" and "stages_ok s"
  shows "snapshot_ok can_open items (gateway_step Q s)" "snapshot_ok can_open items (matching_step Q pad s)"
    "snapshot_ok can_open items (inventory_step Q s)" "snapshot_ok can_open items (publisher_step Q sent s)"
    "snapshot_ok can_open items (main_step can_open items s)" "snapshot_ok can_open items (HandleShutdownSignal s)"
proof -
  show "snapshot_ok can_open items (main_step can_open items s)"
    using assms(1) by (cases "x_main s") (auto simp: snapshot_ok_def main_step_def split: sum.splits)
  have "x_main s = Main_done \<Longrightarrow> inventory_step Q s = s"
    using assms(2) by (simp add: stages_ok_def inventory_step_def)
  then show "snapshot_ok can_open items (inventory_step Q s)"
    using assms(1) by (auto simp: snapshot_ok_def)
qed (use assms(1) in \<open>simp_all add: snapshot_ok_def\<close>)

lemma x_inv_act:
  assumes "x_inv can_open items cmds s" and "action_ok a" and "e_queues E = Q" and "e_can_open E = can_open" and "e_items E = items"
  shows "x_inv can_open items cmds (act E a s)"
proof -
  note inv = assms(1) [unfolded x_inv_def]
  note steps = inbound_ok_step feed_ok_step trades_ok_step stages_ok_step stages_ok_matching quiet_ok_step snapshot_ok_step
    accounts_ok_step accounts_ok_inventory
  have "engine_ok (x_history (inventory_step Q s)) (x_router s) (x_matching s)"
    "engine_ok (x_history (publisher_step Q sent s)) (x_router s) (x_matching s)"
    "accounts_ok (matching_step Q pad s)" for sent pad
    using inv engine_ok_cong [of "x_history (inventory_step Q s)" "x_history s"]
      engine_ok_cong [of "x_history (publisher_step Q sent s)" "x_history s"] by (simp_all add: accounts_ok_def)
  then show ?thesis
    using inv assms(2) engine_ok_matching [of s]
    by (cases a) (simp_all only: act.simps assms(3-) x_inv_def, auto intro: steps)
qed

lemma x_steps_inv:
  assumes "x_steps E s t" and "x_inv can_open items cmds s"
    and "e_queues E = Q" and "e_can_open E = can_open" and "e_items E = items"
  shows "x_inv can_open items cmds t"
  using assms by (induction rule: x_steps.induct) (auto elim!: x_step.cases intro: x_inv_act)

lemma x_reach_inv:
  assumes "x_reach E cmds result s" and "e_queues E = Q"
  shows "x_inv (e_can_open E) (e_items E) cmds s"
  using x_steps_inv [OF _ x_inv_init] assms by (simp add: x_reach_def)

end

end
