(* ===== verification/Listener.thy ===== *)
theory Listener
  imports Exchange_Invariants Client_Tools
begin

text \<open>
  The listener of \<open>tools/orderbook_listener.py\<close> against the exchange: it rebuilds the books from the feed
  alone. Its book is compared with the resting orders of all engines, for clients that never reuse an
  order id and cancel only their own orders.
\<close>

section \<open>Both views as sets of open orders\<close>

fun side_text :: "Side \<Rightarrow> string" where
  "side_text Buy = ''Buy''"
| "side_text Sell = ''Sell''"

text \<open>What the listener decodes from a datagram of the feed.\<close>

fun item_event :: "feed_item \<Rightarrow> Event" where
  "item_event (Add_item a) =
     OrderAddEvent (num (a_orderId a)) (num (a_userId a)) (a_ticker a) (side_text (a_side a)) (num (a_price a)) (num (a_volume a))"
| "item_event (Cancel_item c) = OrderCancelEvent (num (c_orderId c)) (num (c_userId c)) (c_ticker c)"
| "item_event (Trade_item t) =
     TradeEvent (num (t_makerId t)) (num (t_takerId t)) (num (t_makerOrderId t)) (num (t_takerOrderId t)) (t_ticker t)
       (side_text (t_takerSide t)) (num (t_executionPrice t)) (num (t_volume t))"

definition listener_after :: "feed_item list \<Rightarrow> OrderBook" where
  "listener_after items = fold apply_event (map item_event items) []"

definition open_order :: "Ticker \<Rightarrow> Side \<Rightarrow> Entry \<Rightarrow> OpenOrder" where
  "open_order t side en =
     \<lparr>oo_ticker = t, oo_side = side_text side, oo_price = num (fst en), oo_volume = num (ro_volume (snd en))\<rparr>"

definition entry_id :: "Entry \<Rightarrow> int" where
  "entry_id en = num (ro_orderId (snd en))"

definition open_entries :: "Ticker \<Rightarrow> Side \<Rightarrow> Entry list \<Rightarrow> OrderBook" where
  "open_entries t side es = map (\<lambda>en. (entry_id en, open_order t side en)) es"

definition open_book :: "Ticker \<Rightarrow> Spec_Book \<Rightarrow> OrderBook" where
  "open_book t b = open_entries t Buy (sb_bids b) @ open_entries t Sell (sb_asks b)"

definition open_orders :: "MatchingEngineRouter \<Rightarrow> OrderBook" where
  "open_orders r = concat (map (\<lambda>t. open_book t (abs_engine (engine_at t r))) INSTRUMENTS)"

section \<open>The listener's operations on the map of open orders\<close>

definition reduce_map :: "int \<Rightarrow> int \<Rightarrow> (int \<rightharpoonup> OpenOrder) \<Rightarrow> (int \<rightharpoonup> OpenOrder)" where
  "reduce_map k v m =
     (case m k of
        None \<Rightarrow> m
      | Some x \<Rightarrow> if oo_volume x - v \<le> 0 then m(k := None) else m(k \<mapsto> x\<lparr>oo_volume := oo_volume x - v\<rparr>))"

lemma map_of_reduce_order: "map_of (reduce_order k v l) = reduce_map k v (map_of l)"
  by (auto simp: reduce_order_def reduce_map_def Let_def update_conv' delete_conv' split: option.splits)

fun apply_map :: "feed_item \<Rightarrow> (int \<rightharpoonup> OpenOrder) \<Rightarrow> (int \<rightharpoonup> OpenOrder)" where
  "apply_map (Add_item a) m = m(num (a_orderId a) \<mapsto> open_order (a_ticker a) (a_side a) (entry_of a (a_volume a)))"
| "apply_map (Cancel_item c) m = m(num (c_orderId c) := None)"
| "apply_map (Trade_item t) m =
     reduce_map (num (t_takerOrderId t)) (num (t_volume t)) (reduce_map (num (t_makerOrderId t)) (num (t_volume t)) m)"

lemma map_of_listener: "map_of (fold apply_event (map item_event items) l) = fold apply_map items (map_of l)"
proof (induction items arbitrary: l)
  case (Cons x items)
  have "map_of (apply_event (item_event x) l) = apply_map x (map_of l)"
    by (cases x) (simp_all add: update_conv' delete_conv' map_of_reduce_order open_order_def entry_of_def)
  then show ?case using Cons by simp
qed simp

section \<open>One order\<close>

abbreviation ids :: "Entry list \<Rightarrow> int set" where
  "ids es \<equiv> entry_id ` set es"

lemma entry_id_volume [simp]: "entry_id (p, r\<lparr>ro_volume := v\<rparr>) = entry_id (p, r)"
  by (simp add: entry_id_def)

definition owner :: "Entry \<Rightarrow> OrderId \<times> UserId" where
  "owner en = (ro_orderId (snd en), ro_userId (snd en))"

lemma fill_owners: "fill ok q es = (fs, q', es') \<Longrightarrow> owner ` set es' \<subseteq> owner ` set es"
proof (induction ok q es arbitrary: fs q' rule: fill.induct)
  case (2 ok q p r es)
  have "owner (p, r\<lparr>ro_volume := v\<rparr>) = owner (p, r)" for v by (simp add: owner_def)
  with 2 show ?case
    by (cases "fill ok (q - ro_volume r) es") (auto split: if_splits)
qed simp

lemma fill_ids: "fill ok q es = (fs, q', es') \<Longrightarrow> ids es' \<subseteq> ids es"
proof -
  have "ids l = (\<lambda>o1. num (fst o1)) ` owner ` set l" for l
    by (simp add: entry_id_def owner_def image_image)
  then show "fill ok q es = (fs, q', es') \<Longrightarrow> ids es' \<subseteq> ids es"
    using fill_owners [of ok q es fs q' es'] by (simp add: image_mono)
qed

lemma map_of_open_entries:
  "distinct (map entry_id es) \<Longrightarrow> en \<in> set es \<Longrightarrow> map_of (open_entries t side es) (entry_id en) = Some (open_order t side en)"
  by (auto simp: open_entries_def o_def intro!: map_of_is_SomeI)

lemma open_entries_None: "map_of (open_entries t side es) k = None \<longleftrightarrow> k \<notin> ids es"
  by (auto simp: open_entries_def map_of_eq_None_iff image_iff)

text \<open>
  The trades an order causes, seen by the listener: the taker's volume goes down to what is left, the
  orders on the other side become what the fill leaves of them, nothing else changes.
\<close>

definition after_fill :: "Ticker \<Rightarrow> Side \<Rightarrow> int \<Rightarrow> OpenOrder \<Rightarrow> Volume \<Rightarrow> Entry list \<Rightarrow> Entry list
    \<Rightarrow> (int \<rightharpoonup> OpenOrder) \<Rightarrow> (int \<rightharpoonup> OpenOrder)" where
  "after_fill t side i x q es es' m =
     (\<lambda>k. if k = i then (if 0 < q then Some (x\<lparr>oo_volume := num q\<rparr>) else None)
          else if k \<in> ids es then map_of (open_entries t side es') k else m k)"

definition trade_map :: "int \<Rightarrow> Entry \<times> Volume \<Rightarrow> (int \<rightharpoonup> OpenOrder) \<Rightarrow> (int \<rightharpoonup> OpenOrder)" where
  "trade_map i f m = reduce_map i (num (snd f)) (reduce_map (entry_id (fst f)) (num (snd f)) m)"

lemma after_fill_none:
  assumes "distinct (map entry_id es)" and "\<forall>en \<in> set es. m (entry_id en) = Some (open_order t side en)"
    and "m i = (if 0 < q then Some (x\<lparr>oo_volume := num q\<rparr>) else None)"
  shows "after_fill t side i x q es es m = m"
  using assms map_of_open_entries [OF assms(1), of _ t side] by (auto simp: after_fill_def fun_eq_iff)

lemma partial_fill_mirror:
  assumes "0 < q" and "q < ro_volume r" and "distinct (map entry_id es)" and "entry_id (p, r) \<noteq> i" and "entry_id (p, r) \<notin> ids es"
    and "m i = Some (x\<lparr>oo_volume := num q\<rparr>)" and "\<forall>en \<in> set ((p, r) # es). m (entry_id en) = Some (open_order t side en)"
  shows "trade_map i ((p, r), q) m = after_fill t side i x 0 ((p, r) # es) ((p, r\<lparr>ro_volume := ro_volume r - q\<rparr>) # es) m"
proof -
  let ?id = "entry_id (p, r)" and ?rest = "open_order t side (p, r\<lparr>ro_volume := ro_volume r - q\<rparr>)"
  have d: "num (ro_volume r - q) = num (ro_volume r) - num q" "0 < num (ro_volume r) - num q"
    using assms(1,2) num_less [of q "ro_volume r"] by (auto intro: num_diff_nonneg)
  have mid: "m ?id = Some (open_order t side (p, r))" using assms(7) by simp
  have "trade_map i ((p, r), q) m = m(?id \<mapsto> ?rest, i := None)"
    using assms(6) d assms(4) mid by (auto simp: trade_map_def reduce_map_def open_order_def fun_eq_iff)
  moreover have "map_of (open_entries t side es) k = m k" if "k \<in> ids es" for k
    using that assms(3,7) map_of_open_entries [of es] by auto
  moreover have "open_entries t side ((p, r\<lparr>ro_volume := ro_volume r - q\<rparr>) # es) = (?id, ?rest) # open_entries t side es"
    by (simp add: open_entries_def)
  ultimately show ?thesis
    using assms(4,5) by (auto simp: after_fill_def fun_eq_iff)
qed

lemma fill_mirror:
  assumes "fill ok q es = (fs, q', es')" and "distinct (map entry_id es)" and "positive es" and "0 \<le> q" and "i \<notin> ids es"
    and "m i = (if 0 < q then Some (x\<lparr>oo_volume := num q\<rparr>) else None)"
    and "\<forall>en \<in> set es. m (entry_id en) = Some (open_order t side en)"
  shows "fold (trade_map i) fs m = after_fill t side i x q' es es' m"
  using assms
proof (induction ok q es arbitrary: fs q' m rule: fill.induct)
  case (1 ok q)
  then show ?case by (auto simp: after_fill_def fun_eq_iff)
next
  case (2 ok q p r es)
  let ?id = "entry_id (p, r)" and ?v = "ro_volume r"
  have ne: "?id \<noteq> i" "?id \<notin> ids es" using "2.prems" by (auto simp: image_iff)
  have v: "0 < ?v" using "2.prems" by simp
  have mid: "m ?id = Some (open_order t side (p, r))" using "2.prems" by simp
  consider (stop) "\<not> (0 < q \<and> ok p)" | (all) "0 < q" "ok p" "?v \<le> q" | (part) "0 < q" "ok p" "q < ?v"
    using not_le by blast
  then show ?case
  proof cases
    case stop
    then have "fs = []" "q' = q" "es' = (p, r) # es" using "2.prems"(1) by auto
    then show ?thesis
      using "2.prems" after_fill_none [of "(p, r) # es" m t side i q x] by simp
  next
    case all
    obtain gs where g: "fill ok (q - ?v) es = (gs, q', es')" "fs = ((p, r), ?v) # gs"
      using "2.prems"(1) all by (auto split: prod.splits)
    have d: "num (q - ?v) = num q - num ?v" using v all by (intro num_diff_nonneg) simp_all
    let ?m = "trade_map i ((p, r), ?v) m"
    have m: "?m = m(?id := None, i := (if 0 < q - ?v then Some (x\<lparr>oo_volume := num (q - ?v)\<rparr>) else None))"
      using "2.prems"(6) all(1) d ne(1) mid
      by (auto simp: trade_map_def reduce_map_def open_order_def fun_eq_iff simp flip: num_sign)
    have "fold (trade_map i) gs ?m = after_fill t side i x q' es es' ?m"
      using "2.prems" all g(1) diff_nonneg [of ?v q] v by (intro "2.IH") (auto simp: m image_iff)
    moreover have "map_of (open_entries t side es') ?id = None"
      using fill_ids [OF g(1)] ne by (auto simp: open_entries_None)
    ultimately show ?thesis
      using ne g(2) by (auto simp: after_fill_def m fun_eq_iff)
  next
    case part
    then have f: "fs = [((p, r), q)]" "q' = 0" "es' = (p, r\<lparr>ro_volume := ?v - q\<rparr>) # es"
      using "2.prems"(1) by (auto simp flip: not_le)
    show ?thesis
      unfolding f fold_simps using "2.prems" part ne by (intro partial_fill_mirror) auto
  qed
qed

section \<open>The listener follows the engines\<close>

fun other_side :: "Side \<Rightarrow> Side" where
  "other_side Buy = Sell"
| "other_side Sell = Buy"

lemma opposite_own: "opposite side b = own (other_side side) b"
  by (cases side) (simp_all add: opposite_def own_def)

definition resting :: "Ticker \<Rightarrow> Side \<Rightarrow> MatchingEngineRouter \<Rightarrow> Entry list" where
  "resting t side r = own side (abs_engine (engine_at t r))"

lemma set_open_orders:
  "set (open_orders r) = (\<Union>t \<in> set INSTRUMENTS. \<Union>side. set (open_entries t side (resting t side r)))"
proof -
  have "set (open_book t (abs_engine e)) = (\<Union>side. set (open_entries t side (own side (abs_engine e))))" for t e
  proof -
    have univ: "(UNIV :: Side set) = {Buy, Sell}" using Side.exhaust by blast
    show ?thesis by (simp add: univ open_book_def own_def)
  qed
  then show ?thesis by (simp add: open_orders_def resting_def)
qed

text \<open>
  One order's trades against a map that holds the orders \<open>es\<close> of a side and the orders \<open>R\<close> of all other sides.
\<close>

lemma after_fill_graph:
  assumes "Map.graph m = R \<union> set (open_entries t side es)" and "m i = None"
    and "\<forall>(k, y) \<in> R. \<not> (oo_ticker y = t \<and> oo_side y = side_text side)"
    and "distinct (map entry_id es')" and "ids es' \<subseteq> ids es"
  shows "Map.graph (after_fill t side i x q es es' (m(i \<mapsto> z))) =
    R \<union> set (open_entries t side es') \<union> (if 0 < q then {(i, x\<lparr>oo_volume := num q\<rparr>)} else {})"
proof -
  have m: "m k = Some y \<longleftrightarrow> (k, y) \<in> R \<union> set (open_entries t side es)" for k y
    unfolding assms(1) [symmetric] by (simp add: Map.graph_def)
  have fresh: "(i, y) \<notin> R \<union> set (open_entries t side es)" for y using m [of i y] assms(2) by simp
  have entry: "\<exists>en. (k, open_order t side en) \<in> set (open_entries t side es)" if "k \<in> ids es" for k
    using that by (fastforce simp: open_entries_def)
  have i: "i \<notin> ids es" using fresh entry [of i] by blast
  have apart: "(k, y) \<notin> R" if k: "k \<in> ids es" for k y
  proof
    assume "(k, y) \<in> R"
    moreover obtain en where "(k, open_order t side en) \<in> set (open_entries t side es)"
      using entry [OF k] by blast
    ultimately have "open_order t side en = y" using m [of k] by (metis UnCI option.inject)
    then show False using assms(3) \<open>(k, y) \<in> R\<close> by (auto simp: open_order_def)
  qed
  have es': "map_of (open_entries t side es') k = Some y \<longleftrightarrow> (k, y) \<in> set (open_entries t side es')" for k y
    using assms(4) by (intro map_of_eq_Some_iff) (simp add: open_entries_def o_def)
  have keys: "k \<in> ids l" if "(k, y) \<in> set (open_entries t side l)" for k y l
    using that by (auto simp: open_entries_def)
  have "after_fill t side i x q es es' (m(i \<mapsto> z)) k = Some y \<longleftrightarrow>
      (k, y) \<in> R \<union> set (open_entries t side es') \<union> (if 0 < q then {(i, x\<lparr>oo_volume := num q\<rparr>)} else {})" for k y
  proof -
    consider "k = i" | "k \<noteq> i" "k \<in> ids es" | "k \<noteq> i" "k \<notin> ids es" by blast
    then show ?thesis
    proof cases
      case 1
      then show ?thesis using fresh [of y] i assms(5) keys [of i y es'] by (auto simp: after_fill_def)
    next
      case 2
      then show ?thesis using apart by (auto simp: after_fill_def es')
    next
      case 3
      then show ?thesis using assms(5) keys [of k y es] keys [of k y es'] m [of k y] by (auto simp: after_fill_def)
    qed
  qed
  then show ?thesis by (auto simp: Map.graph_def)
qed

text \<open>
  Clients that behave: an order names a listed instrument, has a positive volume and a fresh id, and a
  cancel of an order that was ever sent comes from its owner and names its instrument.
\<close>

fun orderly :: "OrderAdd list \<Rightarrow> InboundCommand list \<Rightarrow> bool" where
  "orderly seen [] \<longleftrightarrow> True"
| "orderly seen (CmdAdd order # cmds) \<longleftrightarrow>
     a_ticker order \<in> set INSTRUMENTS \<and> 0 < a_volume order \<and> a_orderId order \<notin> a_orderId ` set seen \<and>
     orderly (order # seen) cmds"
| "orderly seen (CmdCancel cancel # cmds) \<longleftrightarrow>
     (\<forall>order \<in> set seen. a_orderId order = c_orderId cancel \<longrightarrow>
        a_userId order = c_userId cancel \<and> a_ticker order = c_ticker cancel) \<and>
     orderly seen cmds"

definition sent_by :: "OrderAdd list \<Rightarrow> Ticker \<Rightarrow> Entry \<Rightarrow> bool" where
  "sent_by seen t en \<longleftrightarrow> (\<exists>order \<in> set seen. owner en = (a_orderId order, a_userId order) \<and> a_ticker order = t)"

definition mirrors :: "OrderAdd list \<Rightarrow> MatchingEngineRouter \<Rightarrow> (int \<rightharpoonup> OpenOrder) \<Rightarrow> bool" where
  "mirrors seen r m \<longleftrightarrow>
     router_ok r \<and> Map.graph m = set (open_orders r) \<and> distinct (map a_orderId seen) \<and>
     (\<forall>t \<in> set INSTRUMENTS. index_ok (engine_at t r)) \<and>
     (\<forall>t \<in> set INSTRUMENTS. \<forall>side. \<forall>en \<in> set (resting t side r). sent_by seen t en)"

lemma mirrors_new: "mirrors [] new_Router Map.empty"
proof -
  have "resting t side new_Router = []" if "t \<in> set INSTRUMENTS" for t side
    using that by (cases side) (simp_all add: resting_def engine_at_new abs_engine_def new_MatchingEngine_def own_def)
  then show ?thesis
    by (auto simp: mirrors_def router_ok_new set_open_orders engine_at_new index_ok_new open_entries_def)
qed

lemma index_ok_distinct: "index_ok e \<Longrightarrow> distinct (map entry_id (own side (abs_engine e)))"
proof -
  have "map fst (located side es) = map (\<lambda>en. ro_orderId (snd en)) es" for side es
    by (auto simp: located_def)
  moreover have "distinct (map entry_id es) = distinct (map (\<lambda>en. ro_orderId (snd en)) es)" for es
    by (auto simp: distinct_map inj_on_def entry_id_def)
  ultimately show "index_ok e \<Longrightarrow> distinct (map entry_id (own side (abs_engine e)))"
    by (cases side) (auto simp: index_ok_def locations_def own_def)
qed

lemma index_ok_None:
  assumes "index_ok e" and "\<And>side en. en \<in> set (own side (abs_engine e)) \<Longrightarrow> ro_orderId (snd en) \<noteq> i"
  shows "me_orderIndex e i = None"
proof -
  have "i \<notin> (\<lambda>en. ro_orderId (snd en)) ` set (own side (abs_engine e))" for side
    using assms(2) by blast
  from this [of Buy] this [of Sell] have "i \<notin> fst ` set (locations (abs_engine e))"
    by (simp add: locations_def located_def own_def image_Un image_image case_prod_beta)
  then show ?thesis using assms(1) by (simp add: index_ok_def map_of_eq_None_iff)
qed

lemma resting_step:
  assumes "router_ok r" and "t \<in> set INSTRUMENTS"
  shows "resting t side (fst (router_step c r)) =
    (if cmd_ticker c = t then own side (abs_engine (fst (engine_step c (engine_at t r)))) else resting t side r)"
  using router_step_engine_at(1) [OF assms] by (simp add: resting_def)

text \<open>The open orders of one instrument, by side, and those of all other instruments.\<close>

definition away :: "Ticker \<Rightarrow> MatchingEngineRouter \<Rightarrow> (int \<times> OpenOrder) set" where
  "away t r = (\<Union>t' \<in> set INSTRUMENTS - {t}. \<Union>side. set (open_entries t' side (resting t' side r)))"

lemma open_orders_split:
  assumes "t \<in> set INSTRUMENTS"
  shows "set (open_orders r) =
    away t r \<union> set (open_entries t side (resting t side r)) \<union> set (open_entries t (other_side side) (resting t (other_side side) r))"
proof -
  have "s = side \<or> s = other_side side" for s by (cases s; cases side) auto
  then have univ: "(UNIV :: Side set) = {side, other_side side}" by blast
  have "set INSTRUMENTS = insert t (set INSTRUMENTS - {t})" using assms by blast
  then have "set (open_orders r) = (\<Union>s. set (open_entries t s (resting t s r))) \<union> away t r"
    unfolding set_open_orders away_def by (metis (no_types, lifting) UN_insert)
  then show ?thesis unfolding univ by (simp add: Un_ac)
qed

lemma away_step:
  assumes "router_ok r" and "cmd_ticker c = t"
  shows "away t (fst (router_step c r)) = away t r"
proof -
  have "resting t' side (fst (router_step c r)) = resting t' side r" if "t' \<in> set INSTRUMENTS - {t}" for t' side
    using assms that by (auto simp: resting_step)
  then show ?thesis by (simp add: away_def)
qed

lemma open_entries_slice:
  "(k, y) \<in> set (open_entries t side es) \<Longrightarrow> oo_ticker y = t \<and> oo_side y = side_text side"
  by (auto simp: open_entries_def open_order_def)

lemma away_slice: "(k, y) \<in> away t r \<Longrightarrow> oo_ticker y \<noteq> t"
  by (auto simp: away_def dest: open_entries_slice)

lemma open_entries_insert:
  "set (open_entries t side (stable_insert lt en es)) = insert (entry_id en, open_order t side en) (set (open_entries t side es))"
proof -
  obtain xs ys where "es = xs @ ys" "stable_insert lt en es = xs @ en # ys" by (rule stable_insert_split)
  then show ?thesis by (simp add: open_entries_def)
qed

text \<open>An id that no order sent so far has is known neither to the listener nor to an engine.\<close>

lemma mirrors_fresh:
  assumes "mirrors seen r m" and "i \<notin> a_orderId ` set seen"
  shows "m (num i) = None" and "t \<in> set INSTRUMENTS \<Longrightarrow> me_orderIndex (engine_at t r) i = None"
proof -
  have id: "ro_orderId (snd en) \<noteq> i" if "t \<in> set INSTRUMENTS" "en \<in> set (resting t side r)" for t side en
    using assms that unfolding mirrors_def sent_by_def owner_def by (metis image_eqI prod.inject)
  have "(num i, y) \<notin> set (open_orders r)" for y
    using id by (clarsimp simp: set_open_orders open_entries_def entry_id_def) (metis snd_conv)
  moreover have "Map.graph m = set (open_orders r)" using assms(1) by (simp add: mirrors_def)
  ultimately show "m (num i) = None" by (metis in_graphI option.exhaust)
  show "me_orderIndex (engine_at t r) i = None" if "t \<in> set INSTRUMENTS"
  proof (rule index_ok_None)
    show "index_ok (engine_at t r)" using assms(1) that by (simp add: mirrors_def)
  qed (rule id [OF that], simp add: resting_def)
qed

lemma router_add_fill:
  assumes "router_ok r" and "a_ticker order \<in> set INSTRUMENTS" and "router_step (CmdAdd order) r = (r', ts)"
  obtains fs q lt where
    "fill (acceptable order) (a_volume order) (resting (a_ticker order) (other_side (a_side order)) r) =
       (fs, q, resting (a_ticker order) (other_side (a_side order)) r')"
    and "ts = map (trade_of order) fs"
    and "resting (a_ticker order) (a_side order) r' =
       (if 0 < q then stable_insert lt (entry_of order q) (resting (a_ticker order) (a_side order) r)
        else resting (a_ticker order) (a_side order) r)"
proof -
  obtain e' where add: "AddOrder order (engine_at (a_ticker order) r) = (e', ts)" and e': "engine_at (a_ticker order) r' = e'"
    using assms(2,3) router_step_engine_at(1) [OF assms(1,2), of "CmdAdd order"]
    by (auto simp: router_step_cases [OF assms(1)] split: prod.splits)
  show thesis
    by (rule AddOrder_fill [OF engine_at_inv [OF assms(1,2)] add, folded e', unfolded opposite_own, folded resting_def]) (rule that)
qed

lemma mirrors_resting:
  assumes "mirrors seen r m" and "t \<in> set INSTRUMENTS" and "en \<in> set (resting t side r)"
  shows "m (entry_id en) = Some (open_order t side en)"
proof -
  have "(entry_id en, open_order t side en) \<in> set (open_orders r)"
    using assms(3) unfolding set_open_orders by (intro UN_I [OF assms(2)] UN_I [of side]) (simp_all add: open_entries_def)
  then have "(entry_id en, open_order t side en) \<in> Map.graph m" using assms(1) by (simp add: mirrors_def)
  then show ?thesis by (simp add: Map.graph_def)
qed

lemma apply_trades:
  "fold apply_map (map Trade_item (map (trade_of order) fs)) m = fold (trade_map (num (a_orderId order))) fs m"
  by (induction fs arbitrary: m) (auto simp: trade_map_def mk_trade_def entry_id_def)

lemma mirrors_add_map:
  assumes "mirrors seen r m" and "a_ticker order \<in> set INSTRUMENTS" and "0 < a_volume order" and "m (num (a_orderId order)) = None"
    and idx': "index_ok (engine_at (a_ticker order) r')"
    and step: "router_step (CmdAdd order) r = (r', ts)"
  shows "Map.graph (fold apply_map (Add_item order # map Trade_item ts) m) = set (open_orders r')"
proof -
  let ?t = "a_ticker order" and ?side = "a_side order" and ?i = "num (a_orderId order)"
  let ?e = "engine_at ?t r" and ?other = "other_side ?side"
  have ok: "router_ok r" and inv: "engine_inv ?e" and idx: "index_ok ?e" and g: "Map.graph m = set (open_orders r)"
    using assms(1,2) engine_at_inv by (auto simp: mirrors_def)
  obtain fs q lt where
    f: "fill (acceptable order) (a_volume order) (resting ?t ?other r) = (fs, q, resting ?t ?other r')"
    and ts: "ts = map (trade_of order) fs"
    and own: "resting ?t ?side r' = (if 0 < q then stable_insert lt (entry_of order q) (resting ?t ?side r) else resting ?t ?side r)"
    by (rule router_add_fill [OF ok assms(2) step])
  note d = index_ok_distinct [OF idx, of ?other, folded resting_def]
  note pos = opposite_ok(1) [OF inv, of ?side, unfolded opposite_own, folded resting_def]
  note split = open_orders_split [OF assms(2), of _ ?side]
  note listed = mirrors_resting [OF assms(1,2)]
  let ?x = "open_order ?t ?side (entry_of order (a_volume order))"
  let ?m = "m(?i \<mapsto> ?x)"
  have "fold apply_map (Add_item order # map Trade_item ts) m = fold (trade_map ?i) fs ?m"
    by (simp add: ts apply_trades del: map_map)
  also have "\<dots> = after_fill ?t ?other ?i ?x q (resting ?t ?other r) (resting ?t ?other r') ?m"
  proof (rule fill_mirror [OF f d pos])
    show "?i \<notin> ids (resting ?t ?other r)" using listed assms(4) by force
    show "?m ?i = (if 0 < a_volume order then Some (?x\<lparr>oo_volume := num (a_volume order)\<rparr>) else None)"
      using assms(3) by (simp add: open_order_def entry_of_def)
    show "\<forall>en \<in> set (resting ?t ?other r). ?m (entry_id en) = Some (open_order ?t ?other en)"
      using listed assms(4) by fastforce
  qed (use assms(3) in simp)
  finally have "Map.graph (fold apply_map (Add_item order # map Trade_item ts) m) =
      Map.graph (after_fill ?t ?other ?i ?x q (resting ?t ?other r) (resting ?t ?other r') ?m)" by (rule arg_cong)
  also have "\<dots> = (away ?t r \<union> set (open_entries ?t ?side (resting ?t ?side r))) \<union>
      set (open_entries ?t ?other (resting ?t ?other r')) \<union> (if 0 < q then {(?i, ?x\<lparr>oo_volume := num q\<rparr>)} else {})"
  proof (rule after_fill_graph)
    show "Map.graph m = (away ?t r \<union> set (open_entries ?t ?side (resting ?t ?side r))) \<union> set (open_entries ?t ?other (resting ?t ?other r))"
      unfolding g split by simp
    show "\<forall>(k, y) \<in> away ?t r \<union> set (open_entries ?t ?side (resting ?t ?side r)). \<not> (oo_ticker y = ?t \<and> oo_side y = side_text ?other)"
      by (cases ?side) (auto dest: away_slice open_entries_slice)
    show "distinct (map entry_id (resting ?t ?other r'))" unfolding resting_def by (rule index_ok_distinct [OF idx'])
  qed (use assms(4) fill_ids [OF f] in simp_all)
  also have "\<dots> = set (open_orders r')"
    using away_step [OF ok, of "CmdAdd order" ?t] own step
    by (simp add: split open_entries_insert entry_id_def entry_of_def open_order_def)
  finally show ?thesis .
qed

lemma sent_by_owner: "owner en = owner en' \<Longrightarrow> sent_by seen t en' \<Longrightarrow> sent_by (order # seen) t en"
  by (auto simp: sent_by_def)

lemma add_sent:
  assumes "mirrors seen r m" and "a_ticker order \<in> set INSTRUMENTS"
    and "t \<in> set INSTRUMENTS" and "en \<in> set (resting t side (fst (router_step (CmdAdd order) r)))"
  shows "sent_by (order # seen) t en"
proof (cases "a_ticker order = t")
  case False
  then show ?thesis
    using assms by (auto simp: mirrors_def resting_step sent_by_def simp del: router_step.simps)
next
  case True
  let ?e = "engine_at t r"
  have sent: "\<And>side en. en \<in> set (own side (abs_engine ?e)) \<Longrightarrow> sent_by seen t en" and inv: "engine_inv ?e"
    using assms(1,3) engine_at_inv by (auto simp: mirrors_def resting_def)
  obtain e' ts where add: "AddOrder order ?e = (e', ts)" by (cases "AddOrder order ?e")
  then have en: "en \<in> set (own side (abs_engine e'))"
    using assms True by (simp add: mirrors_def resting_step del: router_step.simps)
  obtain fs q lt where
    f: "fill (acceptable order) (a_volume order) (own (other_side (a_side order)) (abs_engine ?e)) =
      (fs, q, own (other_side (a_side order)) (abs_engine e'))"
    and own: "own (a_side order) (abs_engine e') =
      (if 0 < q then stable_insert lt (entry_of order q) (own (a_side order) (abs_engine ?e)) else own (a_side order) (abs_engine ?e))"
    by (rule AddOrder_fill [OF inv add, unfolded opposite_own])
  consider "side = other_side (a_side order)" | "side = a_side order" by (cases side; cases "a_side order") auto
  then show ?thesis
  proof cases
    case 1
    then obtain en' where "en' \<in> set (own side (abs_engine ?e))" "owner en = owner en'"
      using fill_owners [OF f] en by blast
    then show ?thesis using sent sent_by_owner by blast
  next
    case 2
    obtain xs ys where s: "own side (abs_engine ?e) = xs @ ys"
      "stable_insert lt (entry_of order q) (own side (abs_engine ?e)) = xs @ entry_of order q # ys"
      by (rule stable_insert_split)
    have "sent_by (order # seen) t (entry_of order q)" using True by (simp add: sent_by_def owner_def entry_of_def)
    then show ?thesis using en sent [of en side] own 2 s sent_by_owner [of en en] by (auto split: if_splits)
  qed
qed

lemma mirrors_add:
  assumes "mirrors seen r m" and "orderly seen (CmdAdd order # cmds)" and "feed_step (CmdAdd order) r = (r', items)"
  shows "mirrors (order # seen) r' (fold apply_map items m)"
proof -
  obtain ts where step: "router_step (CmdAdd order) r = (r', ts)" and items: "items = Add_item order # map Trade_item ts"
    using assms(3) by (auto split: prod.splits)
  have ok: "router_ok r" and idx: "\<And>t. t \<in> set INSTRUMENTS \<Longrightarrow> index_ok (engine_at t r)" using assms(1) by (simp_all add: mirrors_def)
  have new: "a_orderId order \<notin> a_orderId ` set seen" and t: "a_ticker order \<in> set INSTRUMENTS" and v: "0 < a_volume order"
    using assms(2) by simp_all
  note fresh = mirrors_fresh [OF assms(1) new]
  have idx': "index_ok (engine_at t r')" if "t \<in> set INSTRUMENTS" for t
    using router_step_engine_at(1) [OF ok that, of "CmdAdd order"] step idx [OF that] fresh(2) [OF that] engine_at_inv [OF ok that]
      OnOrderAdd_index [of "engine_at t r" order "\<lambda>t ts. ts @ [t]" "[]"]
    by (simp add: AddOrder_def engine_inv_def that)
  have "router_ok r'" using router_step_ok [OF ok, of "CmdAdd order"] step by simp
  moreover have "Map.graph (fold apply_map items m) = set (open_orders r')"
    unfolding items by (rule mirrors_add_map [OF assms(1) t v fresh(1) idx' [OF t] step])
  ultimately show ?thesis
    using idx' add_sent [OF assms(1) t] step new assms(1) by (auto simp: mirrors_def)
qed

lemma open_entries_filter:
  "set (open_entries t side (filter (\<lambda>en. entry_id en \<noteq> k) es)) = {x \<in> set (open_entries t side es). fst x \<noteq> k}"
proof -
  have "open_entries t side (filter (\<lambda>en. entry_id en \<noteq> k) es) = filter (\<lambda>x. fst x \<noteq> k) (open_entries t side es)"
    by (simp add: open_entries_def filter_map o_def)
  then show ?thesis by simp
qed

lemma resting_cancel:
  assumes "mirrors seen r m" and "orderly seen (CmdCancel cancel # cmds)" and "t \<in> set INSTRUMENTS"
  shows "resting t side (fst (router_step (CmdCancel cancel) r)) =
    filter (\<lambda>en. entry_id en \<noteq> num (c_orderId cancel)) (resting t side r)"
proof -
  have ok: "router_ok r" and idx: "index_ok (engine_at t r)" using assms by (simp_all add: mirrors_def)
  have target: "entry_id en = num (c_orderId cancel) \<longleftrightarrow> c_ticker cancel = t \<and> cancels cancel en"
    if en: "en \<in> set (resting t side r)" for en
  proof -
    have "sent_by seen t en" using assms(1,3) en by (simp add: mirrors_def)
    then obtain order where "order \<in> set seen" "ro_orderId (snd en) = a_orderId order" "ro_userId (snd en) = a_userId order" "a_ticker order = t"
      by (auto simp: sent_by_def owner_def)
    then show ?thesis using assms(2) by (auto simp: entry_id_def cancels_def)
  qed
  have "abs_engine (OnOrderCancel cancel (engine_at t r)) = spec_cancel cancel (abs_engine (engine_at t r))"
    using OnOrderCancel_refines(1) [OF _ idx] engine_at_inv [OF ok assms(3)] by (simp add: engine_inv_def)
  then have "resting t side (fst (router_step (CmdCancel cancel) r)) =
      filter (\<lambda>en. \<not> (c_ticker cancel = t \<and> cancels cancel en)) (resting t side r)"
    unfolding resting_step [OF ok assms(3)] by (cases side) (simp_all add: resting_def own_def spec_cancel_def)
  also have "\<dots> = filter (\<lambda>en. entry_id en \<noteq> num (c_orderId cancel)) (resting t side r)"
    using target by (intro filter_cong) simp_all
  finally show ?thesis .
qed

lemma mirrors_cancel:
  assumes "mirrors seen r m" and "orderly seen (CmdCancel cancel # cmds)" and "feed_step (CmdCancel cancel) r = (r', items)"
  shows "mirrors seen r' (fold apply_map items m)"
proof -
  have r': "r' = fst (router_step (CmdCancel cancel) r)" and items: "items = [Cancel_item cancel]" using assms(3) by auto
  have ok: "router_ok r" and idx: "\<And>t. t \<in> set INSTRUMENTS \<Longrightarrow> index_ok (engine_at t r)"
    and g: "Map.graph m = set (open_orders r)" using assms(1) by (simp_all add: mirrors_def)
  note rest = resting_cancel [OF assms(1,2), folded r']
  have "index_ok (engine_at t r')" if "t \<in> set INSTRUMENTS" for t
    using router_step_engine_at(1) [OF ok that, of "CmdCancel cancel"] idx [OF that] engine_at_inv [OF ok that]
      OnOrderCancel_refines(2) [of "engine_at t r" cancel]
    by (simp add: r' engine_inv_def del: router_step.simps)
  moreover have "router_ok r'" unfolding r' by (rule router_step_ok [OF ok])
  moreover have "Map.graph (m(num (c_orderId cancel) := None)) = set (open_orders r')"
  proof -
    have "set (open_orders r') = {x \<in> set (open_orders r). fst x \<noteq> num (c_orderId cancel)}"
      unfolding set_open_orders by (auto simp: rest open_entries_filter)
    then show ?thesis unfolding g [symmetric] by (auto simp: Map.graph_def split: if_splits)
  qed
  moreover have "sent_by seen t en" if "t \<in> set INSTRUMENTS" "en \<in> set (resting t side r')" for t side en
    using assms(1) that by (auto simp: mirrors_def rest)
  ultimately show ?thesis
    using assms(1) by (simp add: mirrors_def items)
qed

lemma mirrors_run:
  assumes "mirrors seen r m" and "orderly seen cmds" and "run feed_step cmds r = (r', items)"
  shows "\<exists>seen'. mirrors seen' r' (fold apply_map items m)"
  using assms
proof (induction cmds arbitrary: seen r m items)
  case Nil
  then show ?case by (intro exI [of _ seen]) simp
next
  case (Cons c cmds)
  obtain r1 i1 i2 where step: "feed_step c r = (r1, i1)" "run feed_step cmds r1 = (r', i2)" "items = i1 @ i2"
    using Cons.prems(3) by (auto split: prod.splits)
  show ?case
  proof (cases c)
    case (CmdAdd order)
    then show ?thesis
      using Cons.IH [OF mirrors_add [OF Cons.prems(1)] _ step(2)] Cons.prems(2) step by auto
  next
    case (CmdCancel cancel)
    then show ?thesis
      using Cons.IH [OF mirrors_cancel [OF Cons.prems(1)] _ step(2)] Cons.prems(2) step by auto
  qed
qed

lemma session_mirrors:
  assumes "orderly [] cmds"
  shows "\<exists>seen. mirrors seen (book_after cmds) (map_of (listener_after (feed_of cmds)))"
proof -
  have book: "book_after cmds = fst (run feed_step cmds new_Router)" by (simp add: book_after_def run_feed_router)
  obtain seen where "mirrors seen (book_after cmds) (fold apply_map (feed_of cmds) Map.empty)"
    using mirrors_run [OF mirrors_new assms, of "book_after cmds" "feed_of cmds"] by (auto simp: book feed_of_def)
  then show ?thesis by (auto simp: listener_after_def map_of_listener)
qed

lemma listener_mirror:
  assumes "orderly [] cmds"
  shows "map_of (listener_after (feed_of cmds)) k = Some x \<longleftrightarrow> (k, x) \<in> set (open_orders (book_after cmds))"
  using session_mirrors [OF assms] unfolding mirrors_def by (metis in_graphD in_graphI)

section \<open>Price levels\<close>

text \<open>What \<open>levels\<close> adds up for one price of one side.\<close>

definition at_level :: "string \<Rightarrow> Side \<Rightarrow> int \<Rightarrow> int \<times> OpenOrder \<Rightarrow> bool" where
  "at_level t side p x \<longleftrightarrow> oo_ticker (snd x) = t \<and> (oo_side (snd x) = ''Buy'') = (side = Buy) \<and> oo_price (snd x) = p"

definition total :: "(int \<times> OpenOrder) list \<Rightarrow> int" where
  "total l = (\<Sum>x\<leftarrow>l. oo_volume (snd x))"

fun level_side :: "Side \<Rightarrow> 'a \<times> 'a \<Rightarrow> 'a" where
  "level_side Buy x = fst x"
| "level_side Sell x = snd x"

lemma levels_at:
  "map_of (level_side side (levels t l)) p =
     (if filter (at_level t side p) l = [] then None else Some (total (filter (at_level t side p) l)))"
proof -
  define f where "f = (\<lambda>(order_id :: int, order :: OpenOrder) (bids, asks).
        if oo_ticker order \<noteq> t then (bids, asks)
        else if oo_side order = ''Buy''
          then (AList.update (oo_price order) (case_option 0 id (map_of bids (oo_price order)) + oo_volume order) bids, asks)
          else (bids, AList.update (oo_price order) (case_option 0 id (map_of asks (oo_price order)) + oo_volume order) asks))"
  have step: "map_of (level_side side (f x acc)) p =
      (if at_level t side p x then Some (case_option 0 id (map_of (level_side side acc) p) + oo_volume (snd x))
       else map_of (level_side side acc) p)" for x acc
    by (cases side; cases x; cases acc) (auto simp: f_def at_level_def update_conv')
  have "map_of (level_side side (fold f l acc)) p = (if filter (at_level t side p) l = [] then map_of (level_side side acc) p
      else Some (case_option 0 id (map_of (level_side side acc) p) + total (filter (at_level t side p) l)))" for acc
    by (induction l arbitrary: acc) (auto simp: step total_def)
  from this [of "([], [])"] show ?thesis
    by (cases side) (simp_all add: levels_def f_def)
qed

text \<open>The listener's dictionary has every id once.\<close>

lemma listener_distinct: "distinct (map fst (listener_after items))"
proof -
  have "distinct (map fst (fold apply_event (map item_event items) l))" if "distinct (map fst l)" for l
    using that
  proof (induction items arbitrary: l)
    case (Cons x items)
    have "distinct (map fst (reduce_order k v l'))" if "distinct (map fst l')" for k v and l' :: OrderBook
      using that by (auto simp: reduce_order_def Let_def distinct_update distinct_delete split: option.splits)
    then have "distinct (map fst (apply_event (item_event x) l))"
      using Cons.prems by (cases x) (auto simp: distinct_update distinct_delete)
    then show ?case using Cons.IH by simp
  qed simp
  from this [of "[]"] show ?thesis by (simp add: listener_after_def)
qed

lemma total_set:
  assumes "distinct (map fst l)" and "distinct (map fst l')" and "set l = set l'"
  shows "total l = total l'"
proof -
  have "distinct l" "distinct l'" using assms by (simp_all add: distinct_map)
  then show ?thesis
    using assms(3) by (simp add: total_def sum.distinct_set_conv_list [symmetric])
qed

lemma open_orders_at_level:
  assumes "t \<in> set INSTRUMENTS"
  shows "{x \<in> set (open_orders r). at_level t side (num p) x} =
    set (open_entries t side (filter (\<lambda>en. fst en = p) (resting t side r)))"
proof -
  have slice: "at_level t side (num p) x \<longleftrightarrow> t' = t \<and> s = side \<and> fst en = p"
    if "x = (entry_id en, open_order t' s en)" for x t' s en
    using that by (cases s; cases side) (auto simp: at_level_def open_order_def)
  show ?thesis
    using assms unfolding set_open_orders open_entries_def by (auto simp: slice)
qed

lemma total_open_entries: "total (open_entries t side es) = volume_of es"
  by (induction es) (auto simp: total_def open_entries_def open_order_def)

lemma listener_levels:
  assumes "orderly [] cmds" and "t \<in> set INSTRUMENTS"
  shows "map_of (level_side side (levels t (listener_after (feed_of cmds)))) (num p) =
    (case filter (\<lambda>en. fst en = p) (resting t side (book_after cmds)) of [] \<Rightarrow> None | es \<Rightarrow> Some (volume_of es))"
proof -
  let ?l = "listener_after (feed_of cmds)" and ?r = "book_after cmds"
  let ?es = "filter (\<lambda>en. fst en = p) (resting t side ?r)" and ?at = "filter (at_level t side (num p)) ?l"
  obtain seen where m: "mirrors seen ?r (map_of ?l)" using session_mirrors [OF assms(1)] by blast
  have "set ?l = Map.graph (map_of ?l)" using listener_distinct by (auto simp: Map.graph_def)
  then have set: "set ?at = set (open_entries t side ?es)"
    using m open_orders_at_level [OF assms(2), of ?r side p] by (auto simp: mirrors_def)
  have "distinct (map entry_id (resting t side ?r))"
    using m assms(2) index_ok_distinct by (simp add: mirrors_def resting_def)
  then have "distinct (map fst (open_entries t side ?es))"
    by (simp add: open_entries_def o_def distinct_map_filter)
  moreover have "distinct (map fst ?at)" using listener_distinct by (simp add: distinct_map_filter)
  ultimately have "total ?at = volume_of ?es" using total_set [OF _ _ set] unfolding total_open_entries by blast
  moreover have "?at = [] \<longleftrightarrow> ?es = []" using set by (simp add: open_entries_def flip: set_empty)
  ultimately show ?thesis unfolding levels_at by (auto split: list.splits)
qed

section \<open>Properties\<close>

text \<open>C10: a listener that receives the whole feed holds the book. For clients that use fresh order ids,
  positive volumes and listed instruments and cancel only their own orders, the book the listener rebuilds
  from the feed contains exactly the orders that rest in the engines, with their id, instrument, side, price
  and remaining volume; and the price levels it shows for a listed instrument are the engine's: a price has
  an entry on a side exactly if orders rest there, and the entry is the sum of their volumes.\<close>

theorem listener_mirrors_book:
  assumes "orderly [] cmds" and "t \<in> set INSTRUMENTS"
  shows "(map_of (listener_after (feed_of cmds)) k = Some x \<longleftrightarrow> (k, x) \<in> set (open_orders (book_after cmds))) \<and>
    map_of (level_side side (levels t (listener_after (feed_of cmds)))) (num p) =
      (case filter (\<lambda>en. fst en = p) (own side (abs_engine (engine_at t (book_after cmds)))) of
         [] \<Rightarrow> None
       | es \<Rightarrow> Some (volume_of es))"
  using listener_mirror [OF assms(1)] listener_levels [OF assms, unfolded resting_def] by blast

definition sample_session :: "InboundCommand list" where
  "sample_session =
     [CmdAdd (MakeOrder 1 1 Sell 100 10), CmdAdd (MakeOrder 2 2 Sell 101 5), CmdAdd (MakeOrder 3 3 Buy 100 4),
      CmdCancel \<lparr>c_orderId = OrderId 2, c_userId = UserId 2, c_ticker = ''AAPL''\<rparr>]"

theorem listener_mirrors_book_witness:
  "map_of (listener_after (feed_of sample_session)) 1 =
     Some \<lparr>oo_ticker = ''AAPL'', oo_side = ''Sell'', oo_price = 100, oo_volume = 6\<rparr> \<and>
   map_of (snd (levels ''AAPL'' (listener_after (feed_of sample_session)))) 100 = Some 6"
proof -
  have aapl: "''AAPL'' \<in> set INSTRUMENTS" by (simp add: INSTRUMENTS_def)
  have o: "orderly [] sample_session"
    by (simp add: sample_session_def MakeOrder_def INSTRUMENTS_def i64_eval)
  have e: "engine_at ''AAPL'' (book_after sample_session) = fst (run engine_step sample_session new_MatchingEngine)"
    using run_projection [OF router_ok_new aapl, of sample_session]
    by (simp add: book_after_def engine_at_new aapl sample_session_def MakeOrder_def)
  have asks: "own Sell (abs_engine (engine_at ''AAPL'' (book_after sample_session))) =
      [(Price 100, \<lparr>ro_orderId = OrderId 1, ro_userId = UserId 1, ro_volume = Volume 6\<rparr>)]"
    unfolding e by (simp add: sample_session_def case_prod_beta) (simp add: engine_eval i64_eval abs_engine_def own_def)
  have "(1, \<lparr>oo_ticker = ''AAPL'', oo_side = ''Sell'', oo_price = 100, oo_volume = 6\<rparr>) \<in>
      set (open_entries ''AAPL'' Sell (resting ''AAPL'' Sell (book_after sample_session)))"
    unfolding resting_def asks by (simp add: open_entries_def entry_id_def open_order_def i64_eval)
  then have "(1, \<lparr>oo_ticker = ''AAPL'', oo_side = ''Sell'', oo_price = 100, oo_volume = 6\<rparr>) \<in> set (open_orders (book_after sample_session))"
    unfolding set_open_orders by (intro UN_I [OF aapl] UN_I [of Sell]) simp_all
  moreover have "num (Price 100) = 100" by (simp add: i64_eval)
  ultimately show ?thesis
    using listener_mirrors_book [OF o aapl, of 1 _ Sell "Price 100"] unfolding asks by (simp add: i64_eval)
qed



end
