(* ===== verification/Wire_Properties.thy ===== *)
theory Wire_Properties
  imports Client_Tools
begin

text \<open>
  The two implementations of the wire format agree: what the Python client encodes the C++ gateway
  decodes to the same request, and what the C++ exchange publishes the Python listener decodes to
  the same event.
\<close>

section \<open>Messages in closed form\<close>

lemma encode_ticker_eq:
  "encode_ticker t = Inr bs \<longleftrightarrow>
     list_all is_ascii (char_bytes t) \<and> length t < WIRE_TICKER_SIZE \<and> bs = EncodeTicker t"
  by (auto simp: encode_ticker_def ljust_def EncodeTicker_eq)

lemma pack_B_eq: "pack_B k = Inr bs \<longleftrightarrow> 0 \<le> k \<and> k < 256 \<and> bs = [word_of_int k]"
  by (auto simp: pack_B_def)

lemma encode_order_add_eq:
  "encode_order_add i u t side p v = Inr bs \<longleftrightarrow>
     list_all is_ascii (char_bytes t) \<and> length t < WIRE_TICKER_SIZE \<and>
     in_i64 i \<and> in_i64 u \<and> 0 \<le> side \<and> side < 256 \<and> in_i64 p \<and> in_i64 v \<and>
     bs = 0 # le64 (i64 i) @ le64 (i64 u) @ EncodeTicker t @ [word_of_int side] @ le64 (i64 p) @ le64 (i64 v)"
  using length_EncodeTicker [of t]
  by (auto simp: encode_order_add_def bind_res_eq_Inr encode_ticker_eq pack_q_le64 pack_B_eq pack_s_def ljust_def
      INBOUND_UNION_SIZE_def INBOUND_MESSAGE_SIZE_def wire_sizes Let_def)

lemma encode_order_cancel_eq:
  "encode_order_cancel i u t = Inr bs \<longleftrightarrow>
     list_all is_ascii (char_bytes t) \<and> length t < WIRE_TICKER_SIZE \<and> in_i64 i \<and> in_i64 u \<and>
     bs = 1 # le64 (i64 i) @ le64 (i64 u) @ EncodeTicker t @ replicate 17 0"
  using length_EncodeTicker [of t]
  by (auto simp: encode_order_cancel_def bind_res_eq_Inr encode_ticker_eq pack_q_le64 pack_B_eq pack_s_def ljust_def
      INBOUND_UNION_SIZE_def INBOUND_MESSAGE_SIZE_def wire_sizes Let_def)

lemma decode_ticker_EncodeTicker:
  "ticker_ok t \<Longrightarrow> list_all is_ascii (char_bytes t) \<Longrightarrow> decode_ticker (EncodeTicker t) = Inr t"
  by (simp add: decode_ticker_def takeWhile_EncodeTicker)

lemma word_of_int_byte_eq_0: "0 \<le> k \<Longrightarrow> k < 256 \<Longrightarrow> (word_of_int k :: byte) = 0 \<longleftrightarrow> k = 0"
  using zdvd_not_zless [of k 256] by (auto simp: word_of_int_eq_0_iff)

lemma takeWhile_shorter: "0 \<in> set bs \<Longrightarrow> length (takeWhile (\<lambda>b. b \<noteq> (0 :: byte)) bs) < length bs"
  by (induction bs) auto

lemma slice_tl: "slice n k (tl bs) = slice (n + 1) k bs"
  by (simp add: slice_def drop_Suc)

text \<open>What a datagram carries, for tickers the listener can read.\<close>

definition feedable :: "Ticker \<Rightarrow> bool" where
  "feedable t \<longleftrightarrow> ticker_ok t \<and> list_all is_ascii (char_bytes t)"

lemma feedable_field:
  "feedable t \<Longrightarrow> length (EncodeTicker t) = 16" "feedable t \<Longrightarrow> decode_ticker (EncodeTicker t) = Inr t"
  using length_EncodeTicker [of t] decode_ticker_EncodeTicker [of t]
  by (simp_all add: feedable_def ticker_ok_def wire_sizes)

lemmas feed_defs = bytes_WireMarketDataMessage_def WireMarketDataMessage_init_def overwrite_def decode_market_data_def
  MARKET_DATA_MESSAGE_SIZE_def side_name_def num_def Let_def

lemma decode_EncodeOrderAddEvent:
  "length pad = sizeof_WireTradeEvent - sizeof_WireOrderAdd \<Longrightarrow> feedable (a_ticker order) \<Longrightarrow>
   decode_market_data (bytes_WireMarketDataMessage (EncodeOrderAddEvent pad order)) =
     Inr (OrderAddEvent (num (a_orderId order)) (num (a_userId order)) (a_ticker order)
       (if a_side order = Buy then ''Buy'' else ''Sell'') (num (a_price order)) (num (a_volume order)))"
  using feedable_field [of "a_ticker order"]
  by (simp add: feed_defs EncodeOrderAddEvent_def bytes_WireOrderAddEvent_def layout_simps wire_sizes)

lemma decode_EncodeOrderCancelEvent:
  "length pad = sizeof_WireTradeEvent - sizeof_WireOrderAdd \<Longrightarrow> feedable (c_ticker cancel) \<Longrightarrow>
   decode_market_data (bytes_WireMarketDataMessage (EncodeOrderCancelEvent pad cancel)) =
     Inr (OrderCancelEvent (num (c_orderId cancel)) (num (c_userId cancel)) (c_ticker cancel))"
  using feedable_field [of "c_ticker cancel"]
  by (simp add: feed_defs EncodeOrderCancelEvent_def bytes_WireOrderCancelEvent_def layout_simps wire_sizes)

lemma decode_EncodeTradeEvent:
  "length pad = sizeof_WireTradeEvent - sizeof_WireOrderAdd \<Longrightarrow> feedable (t_ticker trade) \<Longrightarrow>
   decode_market_data (bytes_WireMarketDataMessage (EncodeTradeEvent pad trade)) =
     Inr (TradeEvent (num (t_makerId trade)) (num (t_takerId trade)) (num (t_makerOrderId trade))
       (num (t_takerOrderId trade)) (t_ticker trade) (if t_takerSide trade = Buy then ''Buy'' else ''Sell'')
       (num (t_executionPrice trade)) (num (t_volume trade)))"
  using feedable_field [of "t_ticker trade"]
  by (simp add: feed_defs EncodeTradeEvent_def bytes_WireTradeEvent_def layout_simps wire_sizes)

section \<open>Requests from the client\<close>

lemma order_message_decodes:
  assumes "static_string mk" and "encode_order_add i u t side p v = Inr bs" and "NUL \<notin> set t"
  shows "length bs = sizeof_InboundWireMessage \<and>
    (\<exists>order. DecodeInboundMessage mk (InboundWireMessage_at bs) = Inr (CmdAdd order) \<and>
       num (a_orderId order) = i \<and> num (a_userId order) = u \<and> a_ticker order = t \<and>
       a_side order = (if side = 0 then Buy else Sell) \<and> num (a_price order) = p \<and> num (a_volume order) = v)"
proof -
  note e = assms(2) [unfolded encode_order_add_eq]
  then have "ticker_ok t" and len: "length (EncodeTicker t) = WIRE_TICKER_SIZE"
    using assms(3) length_EncodeTicker [of t] by (auto simp: ticker_ok_def WIRE_TICKER_SIZE_def)
  have "im_orderAdd (InboundWireMessage_at bs) =
      \<lparr>wa_orderId = i64 i, wa_userId = i64 u, wa_ticker = EncodeTicker t, wa_side = word_of_int side,
       wa_price = i64 p, wa_volume = i64 v\<rparr>"
    using e read_WireOrderAdd_layout [OF len, where rest = "[]"]
    by (simp add: InboundWireMessage_at_def im_orderAdd_def)
  moreover have "im_type (InboundWireMessage_at bs) = InboundWireType_OrderAdd"
    and "length bs = sizeof_InboundWireMessage"
    using e len by (simp_all add: InboundWireMessage_at_def InboundWireType_OrderAdd_def wire_sizes)
  ultimately show ?thesis
    using e static_string.DecodeTicker_EncodeTicker [OF assms(1) \<open>ticker_ok t\<close>]
    by (simp add: DecodeInboundMessage_def DecodeOrderAdd_def num_def word_of_int_byte_eq_0)
qed

lemma cancel_message_decodes:
  assumes "static_string mk" and "encode_order_cancel i u t = Inr bs" and "NUL \<notin> set t"
  shows "length bs = sizeof_InboundWireMessage \<and>
    (\<exists>cancel. DecodeInboundMessage mk (InboundWireMessage_at bs) = Inr (CmdCancel cancel) \<and>
       num (c_orderId cancel) = i \<and> num (c_userId cancel) = u \<and> c_ticker cancel = t)"
proof -
  note e = assms(2) [unfolded encode_order_cancel_eq]
  then have "ticker_ok t" and len: "length (EncodeTicker t) = WIRE_TICKER_SIZE"
    using assms(3) length_EncodeTicker [of t] by (auto simp: ticker_ok_def WIRE_TICKER_SIZE_def)
  have "im_orderCancel (InboundWireMessage_at bs) =
      \<lparr>wc_orderId = i64 i, wc_userId = i64 u, wc_ticker = EncodeTicker t\<rparr>"
    using e read_WireOrderCancel_layout [OF len]
    by (simp add: InboundWireMessage_at_def im_orderCancel_def)
  moreover have "im_type (InboundWireMessage_at bs) \<noteq> InboundWireType_OrderAdd"
    and "length bs = sizeof_InboundWireMessage"
    using e len by (simp_all add: InboundWireMessage_at_def InboundWireType_OrderAdd_def wire_sizes)
  ultimately show ?thesis
    using e static_string.DecodeTicker_EncodeTicker [OF assms(1) \<open>ticker_ok t\<close>]
    by (simp add: DecodeInboundMessage_def DecodeOrderCancel_def num_def)
qed

section \<open>Properties\<close>







text \<open>C29: decoding an inbound message is total. A message whose ticker field contains a NUL decodes to a
  command with a ticker of at most 15 characters and no NUL, which fits every field it is copied
  to later; a message whose 16 ticker bytes are all non-zero makes the ticker's constructor throw,
  and the exception leaves \<open>DecodeInboundMessage\<close>.\<close>

theorem decode_inbound_total:
  assumes "static_string mk" and "length bs = sizeof_InboundWireMessage"
  shows "if 0 \<in> set (slice 17 WIRE_TICKER_SIZE bs)
    then \<exists>cmd. DecodeInboundMessage mk (InboundWireMessage_at bs) = Inr cmd \<and> ticker_ok (cmd_ticker cmd)
    else DecodeInboundMessage mk (InboundWireMessage_at bs) = Inl LengthError"
proof -
  let ?m = "InboundWireMessage_at bs"
  let ?t = "slice 17 WIRE_TICKER_SIZE bs"
  have field: "wa_ticker (im_orderAdd ?m) = ?t" "wc_ticker (im_orderCancel ?m) = ?t"
    by (simp_all add: InboundWireMessage_at_def im_orderAdd_def im_orderCancel_def read_WireOrderAdd_def
        read_WireOrderCancel_def slice_tl)
  have len: "length ?t = WIRE_TICKER_SIZE"
    using assms(2) by (simp add: slice_def wire_sizes)
  note defs = DecodeInboundMessage_def DecodeOrderAdd_def DecodeOrderCancel_def field
  show ?thesis
  proof (cases "0 \<in> set ?t")
    case True
    then have "length (takeWhile (\<lambda>b. b \<noteq> 0) ?t) < length ?t"
      by (rule takeWhile_shorter)
    then have "DecodeTicker mk ?t = Inr (bytes_char (takeWhile (\<lambda>b. b \<noteq> 0) ?t))"
      using len by (simp add: static_string.DecodeTicker_result [OF assms(1)] WIRE_TICKER_SIZE_def)
    then show ?thesis
      using True static_string.DecodeTicker_ok [OF assms(1)] by (simp add: defs)
  next
    case False
    then show ?thesis
      using static_string.DecodeTicker_full [OF assms(1) len] by (simp add: defs)
  qed
qed

theorem decode_inbound_total_witness:
  "DecodeInboundMessage checked_string (InboundWireMessage_at (replicate 50 65)) = Inl LengthError \<and>
   (\<exists>cmd. DecodeInboundMessage checked_string (InboundWireMessage_at (replicate 50 0)) = Inr cmd)"
  using decode_inbound_total [OF checked.static_string_axioms, of "replicate 50 65"]
    decode_inbound_total [OF checked.static_string_axioms, of "replicate 50 0"]
  by (auto simp: wire_sizes slice_def)

text \<open>The client refuses what does not fit. \<open>encode_order_add\<close> returns a message exactly when the
  ticker is ASCII and shorter than the field, the side is a byte and every number fits 64 bits;
  otherwise it raises, and the size assertion at its end never fires.\<close>

lemma client_encode_order_add_total:
  "(\<exists>bs. encode_order_add i u t side p v = Inr bs) =
     (list_all is_ascii (char_bytes t) \<and> length t < WIRE_TICKER_SIZE \<and> 0 \<le> side \<and> side < 256 \<and>
      in_i64 i \<and> in_i64 u \<and> in_i64 p \<and> in_i64 v) \<and>
   encode_order_add i u t side p v \<noteq> Inl Assertion_error"
proof -
  have "length (EncodeTicker t) = WIRE_TICKER_SIZE" if "length t < WIRE_TICKER_SIZE"
    using that length_EncodeTicker [of t] by simp
  then have "encode_order_add i u t side p v \<noteq> Inl Assertion_error"
    by (auto simp: encode_order_add_def encode_ticker_def pack_q_def pack_B_def pack_s_def ljust_def
        INBOUND_UNION_SIZE_def INBOUND_MESSAGE_SIZE_def wire_sizes Let_def bind_res_def)
  then show ?thesis
    by (auto simp: encode_order_add_eq)
qed

end
