(* ===== verification/Gateway.thy ===== *)
theory Gateway
  imports Wire
begin

text \<open>
  \<open>Gateway\<close> of \<open>common/net/gateway.hpp\<close> and \<open>.cpp\<close>. The kernel is the environment: \<open>Kernel\<close> holds the
  results its calls are going to return (the descriptors of \<open>accept4\<close>, the outcomes of \<open>read\<close> on each
  descriptor), and the descriptors that are open and watched, which the calls change. Commands go to
  the inbound queue in the order they are dispatched; the retry while the queue is full is part of
  the thread model in theory Exchange.
\<close>

section \<open>State\<close>

record Connection =
  cn_buffer :: "byte list"
  cn_filled :: nat

definition new_Connection :: Connection where
  "new_Connection = \<lparr>cn_buffer = replicate sizeof_InboundWireMessage 0, cn_filled = 0\<rparr>"

record Gateway =
  gw_port :: "16 word"
  gw_listenFd :: int
  gw_epollFd :: int
  gw_running :: bool
  gw_connections :: "int \<rightharpoonup> Connection"

definition new_Gateway :: "16 word \<Rightarrow> Gateway" where
  "new_Gateway port =
     \<lparr>gw_port = port, gw_listenFd = -1, gw_epollFd = -1, gw_running = True, gw_connections = Map.empty\<rparr>"

text \<open>One result of \<open>read\<close>: some bytes, end of stream, \<open>EAGAIN\<close>, or another error.\<close>

datatype read_result = Data "byte list" | Eof | Would_block | Read_error

record Kernel =
  k_accepts :: "int list"
  k_reads :: "int \<Rightarrow> read_result list"
  k_open :: "int set"
  k_watched :: "int set"

definition close_fd :: "int \<Rightarrow> Kernel \<Rightarrow> Kernel" where
  "close_fd fd k = k\<lparr>k_open := k_open k - {fd}, k_watched := k_watched k - {fd}\<rparr>"

definition watch_fd :: "int \<Rightarrow> Kernel \<Rightarrow> Kernel" where
  "watch_fd fd k = k\<lparr>k_watched := insert fd (k_watched k)\<rparr>"

section \<open>Reading from a connection\<close>

definition Dispatch ::
  "(string \<Rightarrow> Ticker res) \<Rightarrow> InboundWireMessage \<Rightarrow> InboundCommand list \<Rightarrow> InboundCommand list res" where
  "Dispatch mk message out = bind_res (DecodeInboundMessage mk message) (\<lambda>cmd. Inr (out @ [cmd]))"

text \<open>A successful \<open>read\<close> copies its bytes behind those already received.\<close>

definition receive :: "byte list \<Rightarrow> Connection \<Rightarrow> Connection" where
  "receive bs conn =
     conn\<lparr>cn_buffer := take (cn_filled conn) (cn_buffer conn) @ bs @ drop (cn_filled conn + length bs) (cn_buffer conn),
          cn_filled := cn_filled conn + length bs\<rparr>"

datatype read_end = Keep | Close | Throw exn

text \<open>
  The loop of \<open>ReadFrom\<close>, one \<open>read\<close> per round. It yields how it ended, the connection, the results
  that later calls will see and the commands dispatched so far. A read that finds no further result
  is one that would block.
\<close>

fun read_loop ::
  "(string \<Rightarrow> Ticker res) \<Rightarrow> Connection \<Rightarrow> read_result list \<Rightarrow> InboundCommand list
   \<Rightarrow> read_end \<times> Connection \<times> read_result list \<times> InboundCommand list" where
  "read_loop mk conn [] out = (Keep, conn, [], out)"
| "read_loop mk conn (Data bs # rs) out =
     (let remaining = length (cn_buffer conn) - cn_filled conn;
          n = length bs;
          conn = receive bs conn
      in if cn_filled conn = length (cn_buffer conn)
         then case Dispatch mk (InboundWireMessage_at (cn_buffer conn)) out of
                Inl e \<Rightarrow> (Throw e, conn, rs, out)
              | Inr out \<Rightarrow>
                  let conn = conn\<lparr>cn_filled := 0\<rparr>
                  in if n < remaining then (Keep, conn, rs, out) else read_loop mk conn rs out
         else if n < remaining then (Keep, conn, rs, out) else read_loop mk conn rs out)"
| "read_loop mk conn (Eof # rs) out = (Close, conn, rs, out)"
| "read_loop mk conn (Would_block # rs) out = (Keep, conn, rs, out)"
| "read_loop mk conn (Read_error # rs) out = (Close, conn, rs, out)"

definition CloseConnection :: "int \<Rightarrow> Gateway \<Rightarrow> Kernel \<Rightarrow> Gateway \<times> Kernel" where
  "CloseConnection fd g k = (g\<lparr>gw_connections := (gw_connections g)(fd := None)\<rparr>, close_fd fd k)"

definition ReadFrom ::
  "(string \<Rightarrow> Ticker res) \<Rightarrow> int \<Rightarrow> Gateway \<Rightarrow> Kernel \<Rightarrow> InboundCommand list
   \<Rightarrow> exn option \<times> Gateway \<times> Kernel \<times> InboundCommand list" where
  "ReadFrom mk fd g k out =
     (case gw_connections g fd of
        None \<Rightarrow> (None, g, k, out)
      | Some conn \<Rightarrow>
          (case read_loop mk conn (k_reads k fd) out of
             (end, conn, rs, out) \<Rightarrow>
               let g = g\<lparr>gw_connections := (gw_connections g)(fd \<mapsto> conn)\<rparr>;
                   k = k\<lparr>k_reads := (k_reads k)(fd := rs)\<rparr>
               in case end of
                    Keep \<Rightarrow> (None, g, k, out)
                  | Close \<Rightarrow> (case CloseConnection fd g k of (g, k) \<Rightarrow> (None, g, k, out))
                  | Throw e \<Rightarrow> (Some e, g, k, out)))"

section \<open>Accepting, closing and the event loop\<close>

text \<open>\<open>accept4\<close> opens a descriptor or returns a negative number when no connection is pending.\<close>

fun accept_loop :: "int list \<Rightarrow> Gateway \<Rightarrow> Kernel \<Rightarrow> Gateway \<times> Kernel" where
  "accept_loop [] g k = (g, k\<lparr>k_accepts := []\<rparr>)"
| "accept_loop (fd # fds) g k =
     (if fd < 0 then (g, k\<lparr>k_accepts := fds\<rparr>)
      else accept_loop fds
             (g\<lparr>gw_connections := (gw_connections g)(fd \<mapsto> new_Connection)\<rparr>)
             (watch_fd fd (k\<lparr>k_open := insert fd (k_open k)\<rparr>)))"

definition AcceptConnections :: "Gateway \<Rightarrow> Kernel \<Rightarrow> Gateway \<times> Kernel" where
  "AcceptConnections g k = accept_loop (k_accepts k) g k"

definition CloseAllConnections :: "Gateway \<Rightarrow> Kernel \<Rightarrow> Gateway \<times> Kernel" where
  "CloseAllConnections g k =
     (g\<lparr>gw_connections := Map.empty\<rparr>,
      k\<lparr>k_open := k_open k - dom (gw_connections g), k_watched := k_watched k - dom (gw_connections g)\<rparr>)"

definition Stop :: "Gateway \<Rightarrow> Gateway" where
  "Stop g = g\<lparr>gw_running := False\<rparr>"

text \<open>The descriptors of one \<open>epoll_wait\<close>, in order; an exception leaves the loop at once.\<close>

fun handle_events ::
  "(string \<Rightarrow> Ticker res) \<Rightarrow> int list \<Rightarrow> Gateway \<Rightarrow> Kernel \<Rightarrow> InboundCommand list
   \<Rightarrow> exn option \<times> Gateway \<times> Kernel \<times> InboundCommand list" where
  "handle_events mk [] g k out = (None, g, k, out)"
| "handle_events mk (fd # fds) g k out =
     (if fd = gw_listenFd g
      then (case AcceptConnections g k of (g, k) \<Rightarrow> handle_events mk fds g k out)
      else (case ReadFrom mk fd g k out of
              (None, g, k, out) \<Rightarrow> handle_events mk fds g k out
            | (Some e, g, k, out) \<Rightarrow> (Some e, g, k, out)))"

text \<open>
  The loop of \<open>Run\<close> over the batches \<open>epoll_wait\<close> returns until \<open>Stop\<close> is seen: each round reads
  \<open>running_\<close> first, and the other thread's store becomes visible after the last batch.
\<close>

fun event_loop ::
  "(string \<Rightarrow> Ticker res) \<Rightarrow> int list list \<Rightarrow> Gateway \<Rightarrow> Kernel \<Rightarrow> InboundCommand list
   \<Rightarrow> exn option \<times> Gateway \<times> Kernel \<times> InboundCommand list" where
  "event_loop mk [] g k out = (None, Stop g, k, out)"
| "event_loop mk (batch # batches) g k out =
     (if gw_running g
      then (case handle_events mk batch g k out of
              (None, g, k, out) \<Rightarrow> event_loop mk batches g k out
            | (Some e, g, k, out) \<Rightarrow> (Some e, g, k, out))
      else (None, g, k, out))"

text \<open>The results of the calls that set the listener up.\<close>

record Setup =
  su_socket :: int
  su_bind :: int
  su_listen :: int
  su_epoll :: int
  su_errno :: string

definition Run ::
  "(string \<Rightarrow> Ticker res) \<Rightarrow> Setup \<Rightarrow> int list list \<Rightarrow> Gateway \<Rightarrow> Kernel
   \<Rightarrow> exn option \<times> Gateway \<times> Kernel \<times> InboundCommand list" where
  "Run mk su batches g k =
     (let g = g\<lparr>gw_listenFd := su_socket su\<rparr>
      in if su_socket su < 0 then (Some (RuntimeError ''Gateway: socket() failed''), g, k, [])
      else let k = k\<lparr>k_open := insert (su_socket su) (k_open k)\<rparr>
      in if su_bind su < 0 then (Some (RuntimeError (''Gateway: bind() failed: '' @ su_errno su)), g, k, [])
      else if su_listen su < 0 then (Some (RuntimeError ''Gateway: listen() failed''), g, k, [])
      else let g = g\<lparr>gw_epollFd := su_epoll su\<rparr>
      in if su_epoll su < 0 then (Some (RuntimeError ''Gateway: epoll_create1() failed''), g, k, [])
      else let k = watch_fd (gw_listenFd g) (k\<lparr>k_open := insert (su_epoll su) (k_open k)\<rparr>)
      in case event_loop mk batches g k [] of
           (Some e, g, k, out) \<Rightarrow> (Some e, g, k, out)
         | (None, g, k, out) \<Rightarrow>
             (case CloseAllConnections g k of (g, k) \<Rightarrow>
                let k = close_fd (gw_epollFd g) k;
                    g = g\<lparr>gw_epollFd := -1\<rparr>;
                    k = close_fd (gw_listenFd g) k;
                    g = g\<lparr>gw_listenFd := -1\<rparr>
                in (None, g, k, out)))"

definition delete_Gateway :: "Gateway \<Rightarrow> Kernel \<Rightarrow> Gateway \<times> Kernel" where
  "delete_Gateway g k =
     (let g = Stop g
      in case CloseAllConnections g k of (g, k) \<Rightarrow>
           let (g, k) = (if gw_epollFd g \<ge> 0 then (g\<lparr>gw_epollFd := -1\<rparr>, close_fd (gw_epollFd g) k) else (g, k));
               (g, k) = (if gw_listenFd g \<ge> 0 then (g\<lparr>gw_listenFd := -1\<rparr>, close_fd (gw_listenFd g) k) else (g, k))
           in (g, k))"

end
