(* ===== verification/Gateway_Properties.thy ===== *)
theory Gateway_Properties
  imports Gateway
begin

text \<open>
  Framing and resources of the gateway. However the kernel cuts the byte stream of a connection into
  reads, the commands dispatched are the decoded 50-byte frames of the stream, in order; and
  whatever happens in \<open>Run\<close>, every descriptor the gateway opened is closed in the end.
\<close>

section \<open>Frames of a stream\<close>

function frames :: "byte list \<Rightarrow> byte list list" where
  "frames bs =
     (if length bs < sizeof_InboundWireMessage then []
      else take sizeof_InboundWireMessage bs # frames (drop sizeof_InboundWireMessage bs))"
  by auto
termination
  by (relation "measure length") (auto simp: wire_sizes)

declare frames.simps [simp del]

function leftover :: "byte list \<Rightarrow> byte list" where
  "leftover bs =
     (if length bs < sizeof_InboundWireMessage then bs else leftover (drop sizeof_InboundWireMessage bs))"
  by auto
termination
  by (relation "measure length") (auto simp: wire_sizes)

declare leftover.simps [simp del]

lemma frames_short [simp]:
  "length bs < sizeof_InboundWireMessage \<Longrightarrow> frames bs = []"
  "length bs < sizeof_InboundWireMessage \<Longrightarrow> leftover bs = bs"
  by (simp_all add: frames.simps [of bs] leftover.simps [of bs])

lemma frames_full [simp]:
  "length f = sizeof_InboundWireMessage \<Longrightarrow> frames (f @ bs) = f # frames bs"
  "length f = sizeof_InboundWireMessage \<Longrightarrow> leftover (f @ bs) = leftover bs"
  by (simp_all add: frames.simps [of "f @ bs"] leftover.simps [of "f @ bs"])

lemma length_leftover: "length (leftover bs) < sizeof_InboundWireMessage"
  by (induction bs rule: leftover.induct) (metis leftover.simps)

lemma frames_leftover: "concat (frames bs) @ leftover bs = bs"
proof (induction bs rule: frames.induct)
  case (1 bs)
  then show ?case
    by (subst frames.simps, subst leftover.simps) simp
qed

text \<open>Decoding frames one after the other, up to the first exception.\<close>

fun decode_frames :: "(string \<Rightarrow> Ticker res) \<Rightarrow> byte list list \<Rightarrow> exn option \<times> InboundCommand list" where
  "decode_frames mk [] = (None, [])"
| "decode_frames mk (f # fs) =
     (case DecodeInboundMessage mk (InboundWireMessage_at f) of
        Inl e \<Rightarrow> (Some e, [])
      | Inr cmd \<Rightarrow> (case decode_frames mk fs of (e, cmds) \<Rightarrow> (e, cmd # cmds)))"

section \<open>The read loop\<close>

text \<open>
  What POSIX promises of \<open>read\<close>: a successful read returns at least one byte and no more than the
  free space it was given. After the end of a stream the descriptor belongs to a new connection.
\<close>

fun reads_ok :: "nat \<Rightarrow> read_result list \<Rightarrow> bool" where
  "reads_ok filled [] = True"
| "reads_ok filled (Data bs # rs) =
     (bs \<noteq> [] \<and> filled + length bs \<le> sizeof_InboundWireMessage \<and>
      reads_ok ((filled + length bs) mod sizeof_InboundWireMessage) rs)"
| "reads_ok filled (Would_block # rs) = reads_ok filled rs"
| "reads_ok filled (Eof # rs) = reads_ok 0 rs"
| "reads_ok filled (Read_error # rs) = reads_ok 0 rs"

fun data :: "read_result list \<Rightarrow> byte list" where
  "data [] = []"
| "data (Data bs # rs) = bs @ data rs"
| "data (r # rs) = data rs"

definition conn_ok :: "Connection \<Rightarrow> bool" where
  "conn_ok c \<longleftrightarrow> length (cn_buffer c) = sizeof_InboundWireMessage \<and> cn_filled c < sizeof_InboundWireMessage"

definition pending :: "Connection \<Rightarrow> byte list" where
  "pending c = take (cn_filled c) (cn_buffer c)"

lemma new_Connection_ok [simp]: "conn_ok new_Connection" "pending new_Connection = []" "cn_filled new_Connection = 0"
  by (simp_all add: conn_ok_def pending_def new_Connection_def wire_sizes)

lemma length_pending: "conn_ok c \<Longrightarrow> length (pending c) = cn_filled c"
  by (simp add: conn_ok_def pending_def)

text \<open>One call of \<open>ReadFrom\<close> against the stream.\<close>

fun end_ok ::
  "(string \<Rightarrow> Ticker res) \<Rightarrow> byte list \<Rightarrow> read_result list \<Rightarrow> Connection \<Rightarrow> read_result list \<Rightarrow> read_end \<Rightarrow> bool" where
  "end_ok mk bytes used conn rs (Throw e) \<longleftrightarrow> fst (decode_frames mk (frames bytes)) = Some e"
| "end_ok mk bytes used conn rs Close \<longleftrightarrow>
     fst (decode_frames mk (frames bytes)) = None \<and> used \<noteq> [] \<and> last used \<in> {Eof, Read_error}"
| "end_ok mk bytes used conn rs Keep \<longleftrightarrow>
     fst (decode_frames mk (frames bytes)) = None \<and> conn_ok conn \<and> pending conn = leftover bytes \<and>
     reads_ok (cn_filled conn) rs \<and> set used \<inter> {Eof, Read_error} = {}"

definition read_spec ::
  "(string \<Rightarrow> Ticker res) \<Rightarrow> Connection \<Rightarrow> read_result list \<Rightarrow> InboundCommand list
   \<Rightarrow> read_end \<times> Connection \<times> read_result list \<times> InboundCommand list \<Rightarrow> bool" where
  "read_spec mk conn rs out result \<longleftrightarrow>
     (case result of (end, conn', rs', out') \<Rightarrow>
        \<exists>used. rs = used @ rs' \<and> (rs \<noteq> [] \<longrightarrow> used \<noteq> []) \<and>
          out' = out @ snd (decode_frames mk (frames (pending conn @ data used))) \<and>
          end_ok mk (pending conn @ data used) used conn' rs' end)"

lemma receive_simps:
  assumes "conn_ok conn" and "cn_filled conn + length bs \<le> sizeof_InboundWireMessage"
  shows "length (cn_buffer (receive bs conn)) = sizeof_InboundWireMessage"
    and "cn_filled (receive bs conn) = cn_filled conn + length bs"
    and "pending (receive bs conn) = pending conn @ bs"
  using assms by (simp_all add: conn_ok_def pending_def receive_def min_def)

lemma read_loop_full:
  assumes "conn_ok conn" and "cn_filled conn + length bs = sizeof_InboundWireMessage"
  shows "\<exists>conn'. conn_ok conn' \<and> pending conn' = [] \<and> cn_filled conn' = 0 \<and>
    (case DecodeInboundMessage mk (InboundWireMessage_at (pending conn @ bs)) of
       Inl e \<Rightarrow> \<exists>conn''. read_loop mk conn (Data bs # rs) out = (Throw e, conn'', rs, out)
     | Inr cmd \<Rightarrow> read_loop mk conn (Data bs # rs) out = read_loop mk conn' rs (out @ [cmd]))"
proof -
  note rc = receive_simps [OF assms(1) eq_imp_le [OF assms(2)]]
  have space: "length (cn_buffer conn) - cn_filled conn = length bs"
    using assms by (simp add: conn_ok_def)
  have buffer: "cn_buffer (receive bs conn) = pending conn @ bs"
    using rc assms(2) by (simp add: pending_def)
  let ?c = "(receive bs conn)\<lparr>cn_filled := 0\<rparr>"
  have "conn_ok ?c" "pending ?c = []"
    using rc by (simp_all add: conn_ok_def pending_def wire_sizes)
  moreover have "cn_filled (receive bs conn) = length (cn_buffer (receive bs conn))"
    using rc assms(2) by simp
  then have "case DecodeInboundMessage mk (InboundWireMessage_at (pending conn @ bs)) of
       Inl e \<Rightarrow> \<exists>conn''. read_loop mk conn (Data bs # rs) out = (Throw e, conn'', rs, out)
     | Inr cmd \<Rightarrow> read_loop mk conn (Data bs # rs) out = read_loop mk ?c rs (out @ [cmd])"
    by (cases "DecodeInboundMessage mk (InboundWireMessage_at (pending conn @ bs))")
      (simp_all add: Dispatch_def space buffer)
  ultimately show ?thesis
    by (intro exI [of _ ?c]) simp
qed

lemma read_spec_step:
  assumes "read_spec mk conn' rs (out @ [cmd]) result"
    and f: "length (pending conn @ bs) = sizeof_InboundWireMessage"
    and "DecodeInboundMessage mk (InboundWireMessage_at (pending conn @ bs)) = Inr cmd" and "pending conn' = []"
  shows "read_spec mk conn (Data bs # rs) out result"
proof -
  obtain e1 conn1 rs1 out1 where r: "result = (e1, conn1, rs1, out1)" by (cases result)
  from assms(1) obtain used where u: "rs = used @ rs1" "rs \<noteq> [] \<longrightarrow> used \<noteq> []"
    "out1 = (out @ [cmd]) @ snd (decode_frames mk (frames (data used)))" "end_ok mk (data used) used conn1 rs1 e1"
    unfolding r read_spec_def prod.case assms(4) append_Nil by blast
  have "frames (pending conn @ data (Data bs # used)) = (pending conn @ bs) # frames (data used)"
    and "leftover (pending conn @ data (Data bs # used)) = leftover (data used)"
    using frames_full [OF f, of "data used"] by simp_all
  note fr = this
  have d: "decode_frames mk (frames (pending conn @ data (Data bs # used))) =
      (fst (decode_frames mk (frames (data used))), cmd # snd (decode_frames mk (frames (data used))))"
    by (simp only: fr decode_frames.simps assms(3) sum.case case_prod_beta)
  then have "out1 = out @ snd (decode_frames mk (frames (pending conn @ data (Data bs # used))))"
    using u(3) by (simp only: d snd_conv append_assoc append.simps)
  moreover have "end_ok mk (pending conn @ data (Data bs # used)) (Data bs # used) conn1 rs1 e1"
    using u(4) by (cases e1) (simp_all only: end_ok.simps d fst_conv fr(2), auto)
  ultimately show ?thesis
    unfolding r read_spec_def prod.case using u(1,2) by (intro exI [of _ "Data bs # used"]) simp
qed

lemma read_loop_spec:
  "conn_ok conn \<Longrightarrow> reads_ok (cn_filled conn) rs \<Longrightarrow> read_spec mk conn rs out (read_loop mk conn rs out)"
proof (induction rs arbitrary: conn out)
  case Nil
  then show ?case by (simp add: read_spec_def length_pending conn_ok_def)
next
  case (Cons r rs)
  show ?case
  proof (cases r)
    case (Data bs)
    let ?f = "pending conn @ bs"
    have le: "cn_filled conn + length bs \<le> sizeof_InboundWireMessage" using Cons.prems(2) Data by simp
    show ?thesis
    proof (cases "cn_filled conn + length bs = sizeof_InboundWireMessage")
      case True
      then have f: "length ?f = sizeof_InboundWireMessage" using Cons.prems(1) by (simp add: length_pending)
      obtain conn' where c: "conn_ok conn'" "pending conn' = []" "cn_filled conn' = 0"
        and step: "case DecodeInboundMessage mk (InboundWireMessage_at ?f) of
           Inl e \<Rightarrow> \<exists>conn''. read_loop mk conn (Data bs # rs) out = (Throw e, conn'', rs, out)
         | Inr cmd \<Rightarrow> read_loop mk conn (Data bs # rs) out = read_loop mk conn' rs (out @ [cmd])"
        using read_loop_full [OF Cons.prems(1) True] by blast
      show ?thesis
      proof (cases "DecodeInboundMessage mk (InboundWireMessage_at ?f)")
        case (Inl e)
        then show ?thesis
          using step f frames_full(1) [OF f, of "[]"]
          by (auto simp: Data read_spec_def intro!: exI [of _ "[Data bs]"])
      next
        case (Inr cmd)
        have "read_spec mk conn' rs (out @ [cmd]) (read_loop mk conn' rs (out @ [cmd]))"
          using Cons.prems(2) c Data True by (intro Cons.IH) auto
        then show ?thesis
          using read_spec_step [OF _ f Inr c(2)] step by (simp add: Data Inr)
      qed
    next
      case False
      then have lt: "cn_filled conn + length bs < sizeof_InboundWireMessage" using le by simp
      note rc = receive_simps [OF Cons.prems(1) le]
      let ?c = "receive bs conn"
      have "conn_ok ?c" and "pending ?c = ?f"
        using rc lt by (simp_all add: conn_ok_def)
      moreover have "length ?f < sizeof_InboundWireMessage"
        using lt Cons.prems(1) by (simp add: length_pending)
      moreover have "read_loop mk conn (Data bs # rs) out = (Keep, ?c, rs, out)"
        using lt Cons.prems(1) rc by (auto simp: conn_ok_def Let_def)
      ultimately show ?thesis
        using Cons.prems(2) lt rc(2) by (auto simp: Data read_spec_def intro!: exI [of _ "[Data bs]"])
    qed
  qed (use Cons.prems in \<open>auto simp: read_spec_def length_pending conn_ok_def intro!: exI [of _ "[r]"]\<close>)
qed

section \<open>A connection over its life\<close>

lemma frames_append: "frames (xs @ ys) = frames xs @ frames (leftover xs @ ys)"
  and leftover_append: "leftover (xs @ ys) = leftover (leftover xs @ ys)"
proof -
  have "frames (xs @ ys) = frames xs @ frames (leftover xs @ ys) \<and> leftover (xs @ ys) = leftover (leftover xs @ ys)"
  proof (induction xs rule: frames.induct)
    case (1 xs)
    show ?case
    proof (cases "length xs < sizeof_InboundWireMessage")
      case False
      let ?f = "take sizeof_InboundWireMessage xs" and ?xs = "drop sizeof_InboundWireMessage xs"
      have f: "length ?f = sizeof_InboundWireMessage" using False by simp
      then show ?thesis
        using 1 [OF False] frames_full [OF f, of ?xs] frames_full [OF f, of "?xs @ ys"]
        by (simp add: append_assoc [symmetric] del: append_assoc)
    qed simp
  qed
  then show "frames (xs @ ys) = frames xs @ frames (leftover xs @ ys)"
    and "leftover (xs @ ys) = leftover (leftover xs @ ys)" by simp_all
qed

lemma decode_frames_append:
  "decode_frames mk (fs @ gs) =
     (if fst (decode_frames mk fs) = None
      then (fst (decode_frames mk gs), snd (decode_frames mk fs) @ snd (decode_frames mk gs))
      else decode_frames mk fs)"
  by (induction fs) (auto simp: case_prod_beta split: sum.splits)

lemma data_append: "data (rs @ rs') = data rs @ data rs'"
  by (induction rs rule: data.induct) auto

lemma read_loop_consumes:
  "read_loop mk conn rs out = (e, conn', rs', out') \<Longrightarrow> rs \<noteq> [] \<Longrightarrow> length rs' < length rs"
proof (induction rs arbitrary: conn out)
  case (Cons r rs)
  have rest: "length rs' \<le> length rs" if "read_loop mk c rs cmds = (e, conn', rs', out')" for c cmds
    using that Cons.IH [OF that] by (cases "rs = []") auto
  show ?case
    using Cons.prems rest by (cases r) (auto simp: Let_def le_imp_less_Suc split: sum.splits if_splits)
qed simp

text \<open>
  Level-triggered \<open>epoll\<close> reports a descriptor as long as there is something to read, so \<open>ReadFrom\<close> is
  called again until everything the kernel has is consumed or the connection is gone.
\<close>

function drain ::
  "(string \<Rightarrow> Ticker res) \<Rightarrow> Connection \<Rightarrow> read_result list \<Rightarrow> InboundCommand list
   \<Rightarrow> read_end \<times> Connection \<times> read_result list \<times> InboundCommand list" where
  "drain mk conn rs out =
     (if rs = [] then (Keep, conn, [], out)
      else case read_loop mk conn rs out of
             (end, conn', rs', out') \<Rightarrow>
               if end = Keep then drain mk conn' rs' out' else (end, conn', rs', out'))"
  by auto
termination
  by (relation "measure (\<lambda>(mk, conn, rs, out). length rs)") (auto dest: read_loop_consumes [OF sym])

declare drain.simps [simp del]

lemma drain_frames:
  assumes "conn_ok conn" and "reads_ok (cn_filled conn) rs" and "set rs \<inter> {Eof, Read_error} = {}"
    and "drain mk conn rs out = (end, conn', rs', out')"
  shows "out' = out @ snd (decode_frames mk (frames (pending conn @ data rs)))"
    and "case fst (decode_frames mk (frames (pending conn @ data rs))) of
        Some e \<Rightarrow> end = Throw e
      | None \<Rightarrow> end = Keep \<and> rs' = [] \<and> conn_ok conn' \<and> pending conn' = leftover (pending conn @ data rs)"
proof -
  have "out' = out @ snd (decode_frames mk (frames (pending conn @ data rs))) \<and>
      (case fst (decode_frames mk (frames (pending conn @ data rs))) of
        Some e \<Rightarrow> end = Throw e
      | None \<Rightarrow> end = Keep \<and> rs' = [] \<and> conn_ok conn' \<and> pending conn' = leftover (pending conn @ data rs))"
    using assms
  proof (induction mk conn rs out rule: drain.induct)
    case (1 mk conn rs out)
    show ?case
    proof (cases "rs = []")
      case True
      then show ?thesis
        using 1 by (auto simp: drain.simps [of mk conn "[]"] length_pending conn_ok_def)
    next
      case False
      obtain e1 conn1 rs1 out1 where l: "read_loop mk conn rs out = (e1, conn1, rs1, out1)"
        by (cases "read_loop mk conn rs out")
      from read_loop_spec [OF 1(2,3), of mk out] obtain used where
        used: "rs = used @ rs1" "out1 = out @ snd (decode_frames mk (frames (pending conn @ data used)))"
        and e1: "end_ok mk (pending conn @ data used) used conn1 rs1 e1"
        by (auto simp: read_spec_def l)
      note split = frames_append [of "pending conn @ data used" "data rs1"]
        leftover_append [of "pending conn @ data used" "data rs1"]
      show ?thesis
      proof (cases e1)
        case Keep
        have "drain mk conn rs out = drain mk conn1 rs1 out1"
          using False by (simp add: drain.simps [of mk conn rs] l Keep)
        then have "out' = out1 @ snd (decode_frames mk (frames (pending conn1 @ data rs1))) \<and>
            (case fst (decode_frames mk (frames (pending conn1 @ data rs1))) of
               Some e \<Rightarrow> end = Throw e
             | None \<Rightarrow> end = Keep \<and> rs' = [] \<and> conn_ok conn' \<and> pending conn' = leftover (pending conn1 @ data rs1))"
          using 1(4,5) e1 Keep used(1) by (intro 1(1) [OF False l [symmetric] refl refl Keep]) auto
        moreover have "pending conn1 = leftover (pending conn @ data used)"
          and "fst (decode_frames mk (frames (pending conn @ data used))) = None"
          using e1 Keep by simp_all
        ultimately show ?thesis
          using split used(2) by (simp add: used(1) data_append decode_frames_append split: option.splits)
      next
        case Close
        then show ?thesis using e1 used(1) 1(4) by (cases used rule: rev_cases) auto
      next
        case (Throw x)
        have "out' = out1" and "end = Throw x"
          using 1(5) False by (simp_all add: drain.simps [of mk conn rs] l Throw)
        then show ?thesis
          using e1 used(2) split by (simp add: Throw used(1) data_append decode_frames_append)
      qed
    qed
  qed
  then show "out' = out @ snd (decode_frames mk (frames (pending conn @ data rs)))"
    and "case fst (decode_frames mk (frames (pending conn @ data rs))) of
        Some e \<Rightarrow> end = Throw e
      | None \<Rightarrow> end = Keep \<and> rs' = [] \<and> conn_ok conn' \<and> pending conn' = leftover (pending conn @ data rs)"
    by blast+
qed

section \<open>Descriptors\<close>

text \<open>
  \<open>res_ok base w g k\<close>: besides the descriptors \<open>base\<close>, exactly those of the connections are open, and
  besides \<open>w\<close> exactly those are watched.
\<close>

definition res_ok :: "int set \<Rightarrow> int set \<Rightarrow> Gateway \<Rightarrow> Kernel \<Rightarrow> bool" where
  "res_ok base w g k \<longleftrightarrow>
     k_open k = base \<union> dom (gw_connections g) \<and> k_watched k = w \<union> dom (gw_connections g) \<and>
     base \<inter> dom (gw_connections g) = {} \<and> w \<subseteq> base \<and> set (k_accepts k) \<inter> base = {}"

lemma accept_loop_res:
  "res_ok base w g k \<Longrightarrow> set fds \<inter> base = {} \<Longrightarrow> accept_loop fds g k = (g', k') \<Longrightarrow>
   res_ok base w g' k' \<and> gw_listenFd g' = gw_listenFd g \<and> gw_epollFd g' = gw_epollFd g"
proof (induction fds arbitrary: g k)
  case (Cons fd fds)
  let ?g = "g\<lparr>gw_connections := (gw_connections g)(fd \<mapsto> new_Connection)\<rparr>"
  let ?k = "watch_fd fd (k\<lparr>k_open := insert fd (k_open k)\<rparr>)"
  show ?case
  proof (cases "fd < 0")
    case False
    have "res_ok base w ?g ?k" using Cons.prems by (auto simp: res_ok_def watch_fd_def)
    then show ?thesis using Cons.IH [of ?g ?k] Cons.prems False by simp
  qed (use Cons.prems in \<open>auto simp: res_ok_def\<close>)
qed (auto simp: res_ok_def)

lemma ReadFrom_res:
  assumes "res_ok base w g k" and "ReadFrom mk fd g k out = (e, g', k', out')"
  shows "res_ok base w g' k' \<and> gw_listenFd g' = gw_listenFd g \<and> gw_epollFd g' = gw_epollFd g"
proof (cases "gw_connections g fd")
  case (Some conn)
  then have fd: "fd \<in> dom (gw_connections g)" by auto
  then have d: "insert fd (dom (gw_connections g)) = dom (gw_connections g)" and "fd \<notin> base" "fd \<notin> w"
    using assms(1) by (auto simp only: res_ok_def)
  then have "base \<union> dom (gw_connections g) - {fd} = base \<union> (dom (gw_connections g) - {fd})"
    and "w \<union> dom (gw_connections g) - {fd} = w \<union> (dom (gw_connections g) - {fd})"
    and "base \<inter> (dom (gw_connections g) - {fd}) = {}"
    using assms(1) by (auto simp only: res_ok_def)
  then show ?thesis
    using assms Some d
    by (cases "read_loop mk conn (k_reads k fd) out"; cases "fst (read_loop mk conn (k_reads k fd) out)";
        clarsimp simp: ReadFrom_def Let_def CloseConnection_def close_fd_def res_ok_def)
qed (use assms in \<open>auto simp: ReadFrom_def\<close>)

lemma handle_events_res:
  "res_ok base w g k \<Longrightarrow> handle_events mk fds g k out = (e, g', k', out') \<Longrightarrow>
   res_ok base w g' k' \<and> gw_listenFd g' = gw_listenFd g \<and> gw_epollFd g' = gw_epollFd g"
proof (induction fds arbitrary: g k out)
  case (Cons fd fds)
  show ?case
  proof (cases "fd = gw_listenFd g")
    case True
    obtain g1 k1 where a: "AcceptConnections g k = (g1, k1)" by (cases "AcceptConnections g k")
    then have "res_ok base w g1 k1 \<and> gw_listenFd g1 = gw_listenFd g \<and> gw_epollFd g1 = gw_epollFd g"
      using Cons.prems(1) by (intro accept_loop_res) (auto simp: AcceptConnections_def res_ok_def)
    then show ?thesis using Cons.IH [of g1 k1 out] Cons.prems(2) True a by simp
  next
    case False
    obtain e1 g1 k1 out1 where r: "ReadFrom mk fd g k out = (e1, g1, k1, out1)" by (cases "ReadFrom mk fd g k out")
    note ReadFrom_res [OF Cons.prems(1) r]
    then show ?thesis using Cons.IH [of g1 k1 out1] Cons.prems(2) False r by (cases e1) auto
  qed
qed simp

lemma event_loop_res:
  "res_ok base w g k \<Longrightarrow> event_loop mk batches g k out = (e, g', k', out') \<Longrightarrow>
   res_ok base w g' k' \<and> gw_listenFd g' = gw_listenFd g \<and> gw_epollFd g' = gw_epollFd g"
proof (induction batches arbitrary: g k out)
  case (Cons batch batches)
  obtain e1 g1 k1 out1 where h: "handle_events mk batch g k out = (e1, g1, k1, out1)"
    by (cases "handle_events mk batch g k out")
  show ?case
    using Cons.IH [of g1 k1 out1] Cons.prems handle_events_res [OF Cons.prems(1) h] h
    by (cases e1) (auto split: if_splits)
qed (auto simp: Stop_def res_ok_def)

lemma CloseAllConnections_res:
  "res_ok base w g k \<Longrightarrow> CloseAllConnections g k = (g', k') \<Longrightarrow>
   k_open k' = base \<and> k_watched k' = w \<and> gw_connections g' = Map.empty \<and>
   gw_listenFd g' = gw_listenFd g \<and> gw_epollFd g' = gw_epollFd g"
  by (auto simp: CloseAllConnections_def res_ok_def)

lemma delete_Gateway_open:
  "delete_Gateway g k = (g', k') \<Longrightarrow>
   k_open k' = k_open k - dom (gw_connections g) - {fd \<in> {gw_epollFd g, gw_listenFd g}. 0 \<le> fd}"
  by (cases "0 \<le> gw_epollFd g"; cases "0 \<le> gw_listenFd g")
    (fastforce simp: delete_Gateway_def CloseAllConnections_def Stop_def close_fd_def)+

lemma Run_setup_fails:
  assumes "Run mk su batches (new_Gateway port) k = (e, g', k', cmds)"
    and "\<not> (0 \<le> su_socket su \<and> 0 \<le> su_bind su \<and> 0 \<le> su_listen su \<and> 0 \<le> su_epoll su)"
  shows "e \<noteq> None" and "gw_connections g' = Map.empty" and "gw_listenFd g' = su_socket su" and "gw_epollFd g' < 0"
    and "k_open k' = (if su_socket su < 0 then k_open k else insert (su_socket su) (k_open k))"
proof -
  consider "su_socket su < 0" | "0 \<le> su_socket su" "su_bind su < 0" | "0 \<le> su_socket su" "0 \<le> su_bind su" "su_listen su < 0"
    | "0 \<le> su_socket su" "0 \<le> su_bind su" "0 \<le> su_listen su" "su_epoll su < 0"
    using assms(2) by linarith
  note four = this
  show "e \<noteq> None" using assms(1) by (cases rule: four) (auto simp: Run_def)
  show "gw_connections g' = Map.empty" using assms(1) by (cases rule: four) (auto simp: Run_def new_Gateway_def)
  show "gw_listenFd g' = su_socket su" using assms(1) by (cases rule: four) (auto simp: Run_def new_Gateway_def)
  show "gw_epollFd g' < 0" using assms(1) by (cases rule: four) (auto simp: Run_def new_Gateway_def)
  show "k_open k' = (if su_socket su < 0 then k_open k else insert (su_socket su) (k_open k))"
    using assms(1) by (cases rule: four) (auto simp: Run_def)
qed

section \<open>Dispatched commands\<close>

text \<open>Whatever bytes arrive, only commands with a ticker that fits are dispatched.\<close>

definition typed :: "InboundCommand \<Rightarrow> bool" where
  "typed c \<longleftrightarrow> ticker_ok (cmd_ticker c)"

context static_string
begin

lemma decoded_typed: "DecodeInboundMessage mk m = Inr c \<Longrightarrow> typed c"
  by (cases c) (auto simp: typed_def dest: DecodeInboundMessage_ok)

lemma read_loop_typed: "read_loop mk conn rs out = (e, conn', rs', out') \<Longrightarrow> list_all typed out \<Longrightarrow> list_all typed out'"
proof (induction rs arbitrary: conn out)
  case (Cons r rs)
  then show ?case
    by (cases r) (auto simp: Let_def Dispatch_def bind_res_eq_Inr dest: decoded_typed split: sum.splits if_splits)
qed simp

lemma ReadFrom_typed: "ReadFrom mk fd g k out = (e, g', k', out') \<Longrightarrow> list_all typed out \<Longrightarrow> list_all typed out'"
  by (auto simp: ReadFrom_def Let_def dest: read_loop_typed split: option.splits prod.splits read_end.splits)

lemma handle_events_typed: "handle_events mk fds g k out = (e, g', k', out') \<Longrightarrow> list_all typed out \<Longrightarrow> list_all typed out'"
proof (induction fds arbitrary: g k out)
  case (Cons fd fds)
  then show ?case
    by (auto dest: ReadFrom_typed split: if_splits prod.splits option.splits)
qed simp

lemma event_loop_typed: "event_loop mk batches g k out = (e, g', k', out') \<Longrightarrow> list_all typed out \<Longrightarrow> list_all typed out'"
proof (induction batches arbitrary: g k out)
  case (Cons batch batches)
  then show ?case
    by (auto dest: handle_events_typed split: if_splits prod.splits option.splits)
qed simp

lemma Run_typed: "Run mk su batches g k = (e, g', k', cmds) \<Longrightarrow> list_all typed cmds"
  by (auto simp: Run_def Let_def CloseAllConnections_def dest: event_loop_typed split: if_splits prod.splits option.splits)

end

section \<open>Properties\<close>

text \<open>C13: framing does not depend on how the kernel cuts the stream. For any sequence of reads that respects
  the contract of \<open>read\<close>, the commands a connection dispatches are the decoded 50-byte frames of the
  bytes received, in order, up to the first frame that does not decode, whose exception ends the
  loop; when all decode, the incomplete frame at the end is kept for the next read.\<close>

theorem framing_independent_of_chunks:
  assumes "reads_ok 0 rs" and "set rs \<inter> {Eof, Read_error} = {}"
    and "drain mk new_Connection rs [] = (end, conn, rest, cmds)"
  shows "cmds = snd (decode_frames mk (frames (data rs))) \<and>
    (case fst (decode_frames mk (frames (data rs))) of
       Some e \<Rightarrow> end = Throw e
     | None \<Rightarrow> end = Keep \<and> rest = [] \<and> pending conn = leftover (data rs))"
proof -
  have "reads_ok (cn_filled new_Connection) rs" using assms(1) by simp
  note d = drain_frames [OF new_Connection_ok(1) this assms(2,3)]
  show ?thesis using d by (auto split: option.splits)
qed

definition sample_reads :: "read_result list" where
  "sample_reads = [Data (replicate 30 0), Data (replicate 20 0), Would_block, Data (replicate 10 65)]"

lemma decode_zero_frame:
  "DecodeInboundMessage checked_string (InboundWireMessage_at (replicate 50 0)) =
     Inr (CmdAdd \<lparr>a_orderId = 0, a_userId = 0, a_ticker = [], a_side = Buy, a_price = 0, a_volume = 0\<rparr>)"
proof -
  have "un_le64 (replicate 8 0) = 0"
    using un_le64_le64 [of 0] by (simp add: le64_def zero_int64_def numeral_nat)
  then show ?thesis
    by (simp add: DecodeInboundMessage_def InboundWireMessage_at_def InboundWireType_OrderAdd_def im_orderAdd_def
        read_WireOrderAdd_def DecodeOrderAdd_def DecodeTicker_def strnlen_def slice_def wire_sizes
        checked_string_def bytes_char_def zero_StrongType_def)
qed

theorem framing_independent_of_chunks_witness:
  "\<exists>conn order. drain checked_string new_Connection sample_reads [] = (Keep, conn, [], [CmdAdd order]) \<and>
     pending conn = replicate 10 65"
proof -
  obtain e conn rest cmds where d: "drain checked_string new_Connection sample_reads [] = (e, conn, rest, cmds)"
    by (cases "drain checked_string new_Connection sample_reads []")
  have ok: "reads_ok 0 sample_reads" "set sample_reads \<inter> {Eof, Read_error} = {}"
    by (simp_all add: sample_reads_def wire_sizes)
  have "replicate 50 (0 :: byte) = replicate 30 0 @ replicate 20 0"
    by (simp add: replicate_add [symmetric])
  then have stream: "data sample_reads = replicate 50 0 @ replicate 10 65"
    by (simp add: sample_reads_def)
  have f: "frames (data sample_reads) = [replicate 50 0]" and l: "leftover (data sample_reads) = replicate 10 65"
    unfolding stream by (simp_all add: wire_sizes)
  show ?thesis
    using framing_independent_of_chunks [OF ok d] d by (simp add: f l decode_zero_frame)
qed

text \<open>C30: reading from one connection neither changes the buffer of another nor consumes its input, and what
  it dispatches depends on its own buffer and input alone.\<close>

theorem connections_isolated:
  assumes "ReadFrom mk fd g k out = (e, g', k', out')" and "fd' \<noteq> fd"
    and "gw_connections g2 fd = gw_connections g fd" and "k_reads k2 fd = k_reads k fd"
  shows "gw_connections g' fd' = gw_connections g fd' \<and> k_reads k' fd' = k_reads k fd' \<and>
    fst (ReadFrom mk fd g2 k2 out) = e \<and> snd (snd (snd (ReadFrom mk fd g2 k2 out))) = out'"
  using assms
  by (cases "read_loop mk (the (gw_connections g fd)) (k_reads k fd) out";
      cases "fst (read_loop mk (the (gw_connections g fd)) (k_reads k fd) out)")
    (auto simp: ReadFrom_def Let_def CloseConnection_def close_fd_def split: option.splits)

definition sample_gateway :: Gateway where
  "sample_gateway = (new_Gateway 9000)\<lparr>gw_connections := [5 \<mapsto> new_Connection, 6 \<mapsto> new_Connection]\<rparr>"

definition sample_kernel :: Kernel where
  "sample_kernel = \<lparr>k_accepts = [5, -1], k_reads = (\<lambda>fd. [Data [65], Eof]), k_open = {0, 1, 2}, k_watched = {}\<rparr>"

theorem connections_isolated_witness:
  "gw_connections (fst (snd (ReadFrom checked_string 5 sample_gateway sample_kernel []))) 6 = Some new_Connection \<and>
   k_reads (fst (snd (snd (ReadFrom checked_string 5 sample_gateway sample_kernel [])))) 6 = [Data [65], Eof]"
proof -
  obtain e g k out where r: "ReadFrom checked_string 5 sample_gateway sample_kernel [] = (e, g, k, out)"
    by (cases "ReadFrom checked_string 5 sample_gateway sample_kernel []")
  show ?thesis
    using connections_isolated [OF r _ refl refl, of 6] r by (simp add: sample_gateway_def sample_kernel_def)
qed

text \<open>C20: no descriptor leaks. However \<open>Run\<close> ends, by \<open>Stop\<close>, by a failing system call or by an exception
  out of a message, the descriptors open after the destructor are those open before \<open>Run\<close>; after a
  regular end they are so already when \<open>Run\<close> returns. The kernel hands out only descriptors that are
  not open.\<close>

theorem gateway_closes_descriptors:
  assumes "Run mk su batches (new_Gateway port) k = (e, g', k', cmds)" and "delete_Gateway g' k' = (g'', k'')"
    and "su_socket su \<notin> k_open k" and "su_epoll su \<notin> insert (su_socket su) (k_open k)"
    and "set (k_accepts k) \<inter> ({su_socket su, su_epoll su} \<union> k_open k) = {}" and "k_watched k = {}"
  shows "k_open k'' = k_open k \<and> (if e = None then k_open k' = k_open k else True)"
proof -
  let ?s = "su_socket su" and ?p = "su_epoll su"
  let ?g = "(new_Gateway port)\<lparr>gw_listenFd := ?s, gw_epollFd := ?p\<rparr>"
  let ?k = "watch_fd ?s (k\<lparr>k_open := insert ?p (insert ?s (k_open k))\<rparr>)"
  note open'' = delete_Gateway_open [OF assms(2)]
  show ?thesis
  proof (cases "0 \<le> ?s \<and> 0 \<le> su_bind su \<and> 0 \<le> su_listen su \<and> 0 \<le> ?p")
    case False
    note f = Run_setup_fails [OF assms(1) False]
    have "k_open k'' = k_open k' - (if 0 \<le> ?s then {?s} else {})"
      unfolding open'' f(2,3) using f(4) by auto
    then show ?thesis using f(1,5) assms(3) by (auto split: if_splits)
  next
    case True
    obtain e1 g1 k1 out1 where l: "event_loop mk batches ?g ?k [] = (e1, g1, k1, out1)"
      by (cases "event_loop mk batches ?g ?k []")
    have "res_ok (insert ?p (insert ?s (k_open k))) {?s} ?g ?k"
      using assms(5,6) by (auto simp: res_ok_def watch_fd_def new_Gateway_def)
    from event_loop_res [OF this l] have r: "res_ok (insert ?p (insert ?s (k_open k))) {?s} g1 k1"
      and fds: "gw_listenFd g1 = ?s" "gw_epollFd g1 = ?p"
      by (auto simp: new_Gateway_def)
    show ?thesis
    proof (cases e1)
      case (Some x)
      have "e = Some x \<and> g' = g1 \<and> k' = k1"
        using assms(1) True l by (simp add: Run_def Some)
      then show ?thesis
        using open'' r fds True assms(3,4) by (auto simp: res_ok_def)
    next
      case None
      obtain g2 k2 where c: "CloseAllConnections g1 k1 = (g2, k2)" by (cases "CloseAllConnections g1 k1")
      note r2 = CloseAllConnections_res [OF r c]
      have "e = None \<and> g' = g2\<lparr>gw_epollFd := -1, gw_listenFd := -1\<rparr> \<and> k' = close_fd ?s (close_fd ?p k2)"
        using assms(1) True l r2 fds by (simp add: Run_def None c)
      with r2 have "e = None \<and> gw_connections g' = Map.empty \<and> gw_listenFd g' = -1 \<and> gw_epollFd g' = -1 \<and>
          k_open k' = insert ?p (insert ?s (k_open k)) - {?p} - {?s}"
        by (simp add: close_fd_def)
      note f = this
      have none: "{fd \<in> {-1, -1}. 0 \<le> fd} = ({} :: int set)" by simp
      have "k_open k'' = k_open k'" unfolding open'' by (simp only: f none dom_empty Diff_empty)
      moreover have "insert ?p (insert ?s (k_open k)) - {?p} - {?s} = k_open k"
        using assms(3,4) by blast
      ultimately show ?thesis by (simp only: f) simp
    qed
  qed
qed

definition sample_setup :: Setup where
  "sample_setup = \<lparr>su_socket = 3, su_bind = 0, su_listen = 0, su_epoll = 4, su_errno = []\<rparr>"

theorem gateway_closes_descriptors_witness:
  "\<exists>g' k' cmds g'' k''.
     Run checked_string sample_setup [[3], [5]] (new_Gateway 9000) sample_kernel = (None, g', k', cmds) \<and>
     k_open k' = {0, 1, 2} \<and> delete_Gateway g' k' = (g'', k'') \<and> k_open k'' = {0, 1, 2}"
proof -
  obtain e g' k' cmds where r: "Run checked_string sample_setup [[3], [5]] (new_Gateway 9000) sample_kernel = (e, g', k', cmds)"
    by (cases "Run checked_string sample_setup [[3], [5]] (new_Gateway 9000) sample_kernel")
  obtain g'' k'' where d: "delete_Gateway g' k' = (g'', k'')" by (cases "delete_Gateway g' k'")
  have "e = None"
    using r by (simp add: Run_def sample_setup_def sample_kernel_def new_Gateway_def AcceptConnections_def watch_fd_def
        ReadFrom_def new_Connection_def receive_def wire_sizes CloseAllConnections_def Stop_def)
  then show ?thesis
    using gateway_closes_descriptors [OF r d] r d by (simp add: sample_setup_def sample_kernel_def)
qed

end
