(* ===== verification/Exchange_Progress.thy ===== *)
theory Exchange_Progress
  imports Exchange_Invariants
begin

text \<open>
  No state is a trap. The threads wait for each other in a circle only in appearance: a blocked push has
  a consumer that runs, a join waits for a thread that can still stop. A lexicographic measure goes
  down with every productive step, and in every state but the final ones some thread has one.
\<close>

section \<open>The measure\<close>

fun main_rank :: "Main_pc \<Rightarrow> nat" where
  "main_rank Main_wait = 6" | "main_rank Main_join_gateway = 5" | "main_rank Main_join_matching = 4"
| "main_rank Main_join_inventory = 3" | "main_rank Main_join_marketData = 2" | "main_rank Main_snapshot = 1"
| "main_rank Main_done = 0"

fun gateway_rank :: "Gateway_pc \<Rightarrow> nat" where
  "gateway_rank (GW_push cmd) = 2" | "gateway_rank GW_run = 1" | "gateway_rank GW_stopped = 0"

text \<open>A consumer polls an empty queue; polling leads to its end only once the stage before has finished.\<close>

fun matching_rank :: "bool \<Rightarrow> ME_pc \<Rightarrow> nat" where
  "matching_rank finished (ME_add order) = 5" | "matching_rank finished (ME_emit outs router) = 4"
| "matching_rank finished ME_pop = (if finished then 3 else 2)"
| "matching_rank finished ME_check = (if finished then 2 else 3)" | "matching_rank finished ME_stopped = 0"

fun outputs_left :: "ME_pc \<Rightarrow> nat" where
  "outputs_left (ME_emit outs router) = length outs" | "outputs_left _ = 0"

fun inventory_rank :: "bool \<Rightarrow> Inventory_pc \<Rightarrow> nat" where
  "inventory_rank finished (IV_settle trade) = 4" | "inventory_rank finished IV_pop = (if finished then 3 else 2)"
| "inventory_rank finished IV_check = (if finished then 2 else 3)" | "inventory_rank finished IV_stopped = 0"

fun publisher_rank :: "bool \<Rightarrow> Publisher_pc \<Rightarrow> nat" where
  "publisher_rank finished (MD_send msg) = 4" | "publisher_rank finished MD_pop = (if finished then 3 else 2)"
| "publisher_rank finished MD_check = (if finished then 2 else 3)" | "publisher_rank finished MD_stopped = 0"

section \<open>Productive steps\<close>

lemma Router_MidPrice_returns: "router_ok r \<Longrightarrow> (Router_MidPrice t r = None) = False"
  by (auto simp: Router_MidPrice_def Let_def router_ok_def engine_inv_def mid_ok_def MidPrice_def)

lemma engine_ok_router: "engine_ok h r pc \<Longrightarrow> router_ok r"
  by (cases pc) (auto simp: router_ok_book_after)

context exchange_queues
begin

definition productive :: "(('qi, 'qm, 'qt) Exchange \<times> ('qi, 'qm, 'qt) Exchange) set" where
  "productive = measures
     [\<lambda>s. if x_shutdownRequested s then 0 else 1, \<lambda>s. main_rank (x_main s), \<lambda>s. length (x_todo s),
      \<lambda>s. gateway_rank (x_gateway s), \<lambda>s. length (inboundItems (x_inbound s)),
      \<lambda>s. matching_rank (x_gatewayFinished s) (x_matching s), \<lambda>s. outputs_left (x_matching s),
      \<lambda>s. length (tradeItems (x_trades s)), \<lambda>s. inventory_rank (x_matchingEngineFinished s) (x_inventory s),
      \<lambda>s. length (marketDataItems (x_marketData s)), \<lambda>s. publisher_rank (x_matchingEngineFinished s) (x_publisher s)]"

lemma wf_productive: "wf productive"
  by (simp add: productive_def)

lemma publisher_productive:
  assumes "x_publisher s \<noteq> MD_stopped"
    and "\<not> (x_publisher s = MD_pop \<and> marketDataItems (x_marketData s) = [] \<and> \<not> x_matchingEngineFinished s)"
  shows "(publisher_step Q sent s, s) \<in> productive"
  using assms
  by (cases "x_publisher s")
    (auto simp: productive_def publisher_step_def marketData.pop_empty dest!: marketData.pop_front split: option.splits)

lemma inventory_productive:
  assumes "x_inventory s \<noteq> IV_stopped" and "router_ok (x_router s)"
    and "\<not> (x_inventory s = IV_pop \<and> tradeItems (x_trades s) = [] \<and> \<not> x_matchingEngineFinished s)"
  shows "x_terminated (inventory_step Q s) \<noteq> None \<or> (inventory_step Q s, s) \<in> productive"
  using assms
  by (cases "x_inventory s")
    (auto simp: productive_def Router_MidPrice_returns inventory_step_def trades.pop_empty dest!: trades.pop_front split: option.splits sum.splits)

lemma matching_productive:
  assumes "x_matching s \<noteq> ME_stopped"
    and "\<not> (x_matching s = ME_pop \<and> inboundItems (x_inbound s) = [] \<and> \<not> x_gatewayFinished s)"
    and "marketDataItems (x_marketData s) = []" and "tradeItems (x_trades s) = []"
  shows "(matching_step Q pad s, s) \<in> productive"
proof -
  have free: "(PushBlocking Q pad out s = None) = False" for out
    using assms(3,4) by (cases out) (simp_all add: PushBlocking.simps marketData.push_full trades.push_full QUEUE_CAPACITY_def)
  show ?thesis
    using assms(1,2) by (cases rule: matching_step_cases [of pad s])
      (auto simp: productive_def free elim!: PushBlocking_SomeE)
qed

lemma gateway_productive:
  assumes "x_gateway s \<noteq> GW_stopped" and "inboundItems (x_inbound s) = []"
    and "\<not> (x_gateway s = GW_run \<and> x_todo s = [] \<and> x_running s)"
  shows "x_terminated (gateway_step Q s) \<noteq> None \<or> (gateway_step Q s, s) \<in> productive"
  using assms inbound.blocked_nonempty
  by (cases "x_gateway s") (auto simp: productive_def gateway_step_def split: list.splits option.splits)

lemma main_productive:
  assumes "x_main s \<noteq> Main_done" and "x_main s = Main_wait \<Longrightarrow> x_shutdownRequested s"
    and "x_main s = Main_join_gateway \<Longrightarrow> x_gateway s = GW_stopped"
    and "x_main s = Main_join_matching \<Longrightarrow> x_matching s = ME_stopped"
    and "x_main s = Main_join_inventory \<Longrightarrow> x_inventory s = IV_stopped"
    and "x_main s = Main_join_marketData \<Longrightarrow> x_publisher s = MD_stopped"
  shows "x_terminated (main_step can_open items s) \<noteq> None \<or> (main_step can_open items s, s) \<in> productive"
  using assms by (cases "x_main s") (auto simp: productive_def main_step_def split: sum.splits)

lemma some_action_productive:
  assumes "x_inv can_open items cmds s" and "x_main s \<noteq> Main_done" and "e_queues E = Q"
  shows "\<exists>a. action_ok a \<and> (x_terminated (act E a s) \<noteq> None \<or> (act E a s, s) \<in> productive)"
proof (rule ccontr)
  assume none: "\<not> ?thesis"
  have stages: "stages_ok s" and router: "router_ok (x_router s)"
    using assms(1) engine_ok_router by (auto simp: x_inv_def)
  have "\<exists>pad. pad_ok pad" using Ex_list_of_length by (simp add: pad_ok_def)
  then obtain pad where pad: "pad_ok pad" ..
  have stuck: "\<not> (x_terminated (act E a s) \<noteq> None \<or> (act E a s, s) \<in> productive)" if "action_ok a" for a
    using none that by blast
  note quiet = stuck [of "Do_publisher True"] stuck [of Do_inventory] stuck [of "Do_matching pad"] stuck [of Do_gateway]
    stuck [of Do_main] stuck [of Do_signal]
  have st: "x_gatewayFinished s \<Longrightarrow> x_gateway s = GW_stopped" "x_matching s = ME_stopped \<Longrightarrow> x_gatewayFinished s"
    "x_matchingEngineFinished s \<Longrightarrow> x_matching s = ME_stopped" "x_inventory s = IV_stopped \<Longrightarrow> x_matchingEngineFinished s"
    "x_publisher s = MD_stopped \<Longrightarrow> x_matchingEngineFinished s" "x_main s = Main_join_gateway \<Longrightarrow> \<not> x_running s"
    "x_main s = Main_join_matching \<Longrightarrow> x_gatewayFinished s" "x_main s = Main_join_inventory \<Longrightarrow> x_matchingEngineFinished s"
    "x_main s = Main_join_marketData \<Longrightarrow> x_matchingEngineFinished s"
    using stages unfolding stages_ok_def by auto
  have p: "x_publisher s = MD_stopped \<or> marketDataItems (x_marketData s) = [] \<and> \<not> x_matchingEngineFinished s"
    using publisher_productive [of s True] quiet(1) assms(3) by auto
  have i: "x_inventory s = IV_stopped \<or> tradeItems (x_trades s) = [] \<and> \<not> x_matchingEngineFinished s"
    using inventory_productive [OF _ router] quiet(2) assms(3) by auto
  have m: "x_matching s = ME_stopped \<or> inboundItems (x_inbound s) = [] \<and> \<not> x_gatewayFinished s"
    using matching_productive [of s pad] quiet(3) assms(3) pad p i st(3-5) by auto
  have "x_gateway s \<noteq> GW_stopped \<Longrightarrow> inboundItems (x_inbound s) = []"
    using m st(1,2) by blast
  then have g: "x_gateway s = GW_stopped \<or> x_running s"
    using gateway_productive [of s] quiet(4) assms(3) by fastforce
  have sh: "x_shutdownRequested s"
    using quiet(6) by (simp add: productive_def HandleShutdownSignal_def split: if_splits)
  show False
    using main_productive [OF assms(2), of "e_can_open E" "e_items E"] quiet(5) p i m g sh st(6-9) by auto
qed

lemma can_complete:
  assumes "x_inv can_open items cmds s" and "e_queues E = Q" and "e_can_open E = can_open" and "e_items E = items"
  shows "\<exists>t. x_steps E s t \<and> (x_terminated t \<noteq> None \<or> x_main t = Main_done)"
  using wf_productive assms(1)
proof (induction s rule: wf_induct_rule)
  case (less s)
  show ?case
  proof (cases "x_terminated s \<noteq> None \<or> x_main s = Main_done")
    case False
    then obtain a where a: "action_ok a" "x_terminated (act E a s) \<noteq> None \<or> (act E a s, s) \<in> productive"
      using some_action_productive [OF less.prems _ assms(2)] by blast
    have step: "x_steps E s (act E a s)" using False a(1) by (intro x_steps_act) simp_all
    from a(2) show ?thesis
    proof
      assume "(act E a s, s) \<in> productive"
      then obtain t where "x_steps E (act E a s) t" "x_terminated t \<noteq> None \<or> x_main t = Main_done"
        using less.IH [OF _ x_inv_act [OF less.prems a(1) assms(2-)]] by blast
      then show ?thesis using x_steps_trans [OF _ step] by blast
    qed (use step in blast)
  qed (auto intro: x_steps.none)
qed

end

end
