(* ===== verification/Exchange_Properties.thy ===== *)
theory Exchange_Properties
  imports Exchange_Progress
begin

text \<open>
  What the running exchange promises. In every interleaving it does what the sequential exchange does,
  a prefix of it at any time; the shutdown can always complete; it drains everything when each
  stage's last look at its queue came after the stage before had stopped, and can lose an order when
  it did not.
\<close>

section \<open>Prefixes\<close>

lemma feed_of_prefix: "prefix (feed_of cs) (feed_of (cs @ [c]))"
  by (simp add: sequential_snoc)

lemma trades_of_prefix: "prefix (trades_of cs) (trades_of (cs @ [c]))"
  by (simp add: sequential_snoc)

lemma engine_ok_prefix:
  assumes "engine_ok h r pc"
  shows "prefix (h_fed h) (feed_of (h_popped h))" and "prefix (h_traded h) (trades_of (h_popped h))"
  using assms by (cases pc; auto simp: feed_of_prefix trades_of_prefix intro: prefixI [OF sym])+

lemma list_all2_prefix: "list_all2 P (xs @ ys) zs \<Longrightarrow> \<exists>us. prefix us zs \<and> list_all2 P xs us"
  by (metis list_all2_append1 prefixI)

context exchange_queues
begin

lemma refines_sequential:
  assumes "x_reach E cmds result s" and "e_queues E = Q"
  shows "prefix (h_popped (x_history s)) cmds"
    and "\<exists>items. prefix items (feed_of (h_popped (x_history s))) \<and> list_all2 encoded (map fst (x_sent s)) items"
    and "prefix (map snd (h_settled (x_history s))) (trades_of (h_popped (x_history s)))"
    and "settle_all binary64 (h_settled (x_history s)) new_UserRegistry = Inr (x_registry s)"
proof -
  let ?h = "x_history s"
  note inv = x_reach_inv [OF assms, unfolded x_inv_def]
  have e: "prefix (h_fed ?h) (feed_of (h_popped ?h))" "prefix (h_traded ?h) (trades_of (h_popped ?h))"
    using inv engine_ok_prefix by blast+
  show "prefix (h_popped ?h) cmds" using inv by (auto simp: inbound_ok_def)
  obtain items where "prefix items (h_fed ?h)" "list_all2 encoded (map fst (x_sent s)) items"
    using inv list_all2_prefix unfolding feed_ok_def by blast
  then show "\<exists>items. prefix items (feed_of (h_popped ?h)) \<and> list_all2 encoded (map fst (x_sent s)) items"
    using e(1) prefix_order.trans by blast
  have "prefix (map snd (h_settled ?h)) (h_traded ?h)"
    using inv unfolding trades_ok_def by (metis prefixI)
  then show "prefix (map snd (h_settled ?h)) (trades_of (h_popped ?h))"
    using e(2) prefix_order.trans by blast
  show "settle_all binary64 (h_settled ?h) new_UserRegistry = Inr (x_registry s)"
    using inv by (simp add: accounts_ok_def)
qed

lemma drains:
  assumes "x_reach E cmds result s" and "e_queues E = Q" and "x_main s = Main_done"
    and "h_quiet_matching (x_history s)" and "h_quiet_inventory (x_history s)" and "h_quiet_marketData (x_history s)"
  shows "x_router s = book_after cmds" and "list_all2 encoded (map fst (x_sent s)) (feed_of cmds)"
    and "map snd (h_settled (x_history s)) = trades_of cmds"
    and "x_snapshot s = Some text \<Longrightarrow> WriteSnapshot (e_can_open E) (e_items E) INVENTORY_SNAPSHOT_PATH (x_registry s) = Inr text"
    and "x_snapshot s \<noteq> None"
proof -
  let ?h = "x_history s"
  note inv = x_reach_inv [OF assms(1,2), unfolded x_inv_def]
  have st: "x_gateway s = GW_stopped" "x_todo s = []" "x_matching s = ME_stopped" "x_inventory s = IV_stopped" "x_publisher s = MD_stopped"
    using inv assms(3) by (auto simp: stages_ok_def)
  then have empty: "inboundItems (x_inbound s) = []" "tradeItems (x_trades s) = []" "marketDataItems (x_marketData s) = []"
    using inv assms(4-6) by (auto simp: quiet_ok_def)
  have popped: "h_popped ?h = cmds" using inv st empty by (simp add: inbound_ok_def)
  then have e: "x_router s = book_after cmds" "h_fed ?h = feed_of cmds" "h_traded ?h = trades_of cmds"
    using inv st by simp_all
  then show "x_router s = book_after cmds" "list_all2 encoded (map fst (x_sent s)) (feed_of cmds)"
    "map snd (h_settled (x_history s)) = trades_of cmds"
    using inv st empty unfolding feed_ok_def trades_ok_def by auto
  show "x_snapshot s = Some text \<Longrightarrow> WriteSnapshot (e_can_open E) (e_items E) INVENTORY_SNAPSHOT_PATH (x_registry s) = Inr text"
    "x_snapshot s \<noteq> None"
    using inv assms(3) by (auto simp: snapshot_ok_def)
qed

end

section \<open>Properties\<close>

text \<open>C3: the concurrent exchange does what the sequential one does. Whatever the interleaving of the threads and
  whatever the kernel does with the datagrams, at any time the commands taken are a prefix of those
  the gateway dispatched, in order; the datagrams handed to the system encode a prefix of the feed,
  and the trades settled are a prefix of the trades, that the sequential exchange produces from the
  commands taken; and the accounts are those of the settled trades. Nothing is lost, duplicated or
  reordered on the way, and a full queue only delays.\<close>

theorem exchange_refines_sequential:
  assumes "exchange_queues (e_queues E) fi fm ft" and "x_reach E cmds result s"
  shows "prefix (h_popped (x_history s)) cmds \<and>
    (\<exists>items. prefix items (feed_of (h_popped (x_history s))) \<and> list_all2 encoded (map fst (x_sent s)) items) \<and>
    prefix (map snd (h_settled (x_history s))) (trades_of (h_popped (x_history s))) \<and>
    settle_all binary64 (h_settled (x_history s)) new_UserRegistry = Inr (x_registry s)"
  using exchange_queues.refines_sequential [OF assms HOL.refl] by blast

definition sample_env :: "(InboundCommand list, WireMarketDataMessage list, Trade list) Env" where
  "sample_env = \<lparr>e_queues = list_queues, e_can_open = (\<lambda>path. True), e_items = items_by_ticker\<rparr>"

lemmas exchange_eval = sample_env_def x_init_def list_queues_def bounded_list_def QUEUE_CAPACITY_def
  gateway_step_def matching_step_def inventory_step_def publisher_step_def main_step_def HandleShutdownSignal_def
  PushBlocking.simps WriteSnapshot_def Let_def

definition sample_pad :: "byte list" where
  "sample_pad = replicate (sizeof_WireTradeEvent - sizeof_WireOrderAdd) 0"

lemma sample_pad_ok [simp]: "pad_ok sample_pad"
  by (simp add: pad_ok_def sample_pad_def)

definition sample_cancel :: InboundCommand where
  "sample_cancel = CmdCancel \<lparr>c_orderId = OrderId 1, c_userId = UserId 1, c_ticker = ''XYZ''\<rparr>"

lemma sample_queues: "exchange_queues (e_queues sample_env) (\<lambda>q. q) (\<lambda>q. q) (\<lambda>q. q)"
  by (simp add: sample_env_def lists.exchange_queues_axioms)

lemma x_reach_perform: "x_reach E cmds result (perform E as (x_init (e_queues E) cmds result))"
  by (simp add: x_reach_def x_steps_perform)

lemma x_reach_sample: "x_reach sample_env cmds result (perform sample_env as (x_init list_queues cmds result))"
  using x_reach_perform [of sample_env cmds result as] by (simp only: sample_env_def Env.simps)

theorem exchange_refines_sequential_witness:
  "let s = perform sample_env [Do_gateway, Do_gateway, Do_matching sample_pad, Do_matching sample_pad,
       Do_publisher True, Do_publisher True] (x_init list_queues [sample_cancel] None)
   in h_popped (x_history s) = [sample_cancel] \<and> length (x_sent s) = 1 \<and>
      (\<exists>items. prefix items (feed_of [sample_cancel]) \<and> list_all2 encoded (map fst (x_sent s)) items)"
proof -
  define s where "s = perform sample_env [Do_gateway, Do_gateway, Do_matching sample_pad, Do_matching sample_pad,
       Do_publisher True, Do_publisher True] (x_init list_queues [sample_cancel] None)"
  have "h_popped (x_history s) = [sample_cancel]" "length (x_sent s) = 1"
    by (simp_all add: s_def exchange_eval sample_cancel_def)
  moreover have "x_reach sample_env [sample_cancel] None s"
    unfolding s_def by (rule x_reach_sample)
  ultimately show ?thesis
    using exchange_refines_sequential [OF sample_queues, of "[sample_cancel]" None s]
    unfolding Let_def s_def [symmetric] by simp
qed

text \<open>C11: a quiet shutdown loses nothing. If \<open>main\<close> has returned and each worker's last empty pop came after the stage
  that feeds it had stopped, then every command the gateway dispatched was executed, the whole feed
  was handed to the system in order, every trade was settled, and the snapshot shows those accounts.\<close>

theorem quiet_shutdown_drains:
  assumes "exchange_queues (e_queues E) fi fm ft" and "x_reach E cmds result s" and "x_main s = Main_done"
    and "h_quiet_matching (x_history s)" and "h_quiet_inventory (x_history s)" and "h_quiet_marketData (x_history s)"
  shows "x_router s = book_after cmds \<and> list_all2 encoded (map fst (x_sent s)) (feed_of cmds) \<and>
    map snd (h_settled (x_history s)) = trades_of cmds \<and>
    settle_all binary64 (h_settled (x_history s)) new_UserRegistry = Inr (x_registry s) \<and>
    WriteSnapshot (e_can_open E) (e_items E) INVENTORY_SNAPSHOT_PATH (x_registry s) = Inr (the (x_snapshot s))"
  using exchange_queues.drains [OF assms(1,2) HOL.refl assms(3-6)]
    exchange_queues.refines_sequential(4) [OF assms(1,2) HOL.refl] by auto

definition quiet_actions :: "action list" where
  "quiet_actions =
     [Do_gateway, Do_gateway, Do_signal, Do_main, Do_gateway, Do_main,
      Do_matching sample_pad, Do_matching sample_pad, Do_matching sample_pad, Do_matching sample_pad, Do_matching sample_pad,
      Do_main, Do_publisher True, Do_publisher False, Do_publisher True, Do_publisher True, Do_inventory, Do_inventory,
      Do_main, Do_main, Do_main]"

theorem quiet_shutdown_drains_witness:
  "let s = perform sample_env quiet_actions (x_init list_queues [sample_cancel] None)
   in x_main s = Main_done \<and> list_all2 encoded (map fst (x_sent s)) (feed_of [sample_cancel]) \<and>
      map snd (h_settled (x_history s)) = trades_of [sample_cancel]"
proof -
  define s where "s = perform sample_env quiet_actions (x_init list_queues [sample_cancel] None)"
  have "x_main s = Main_done" "h_quiet_matching (x_history s)" "h_quiet_inventory (x_history s)" "h_quiet_marketData (x_history s)"
    by (simp_all add: s_def exchange_eval quiet_actions_def sample_cancel_def)
  moreover have "x_reach sample_env [sample_cancel] None s"
    unfolding s_def by (rule x_reach_sample)
  ultimately show ?thesis
    using quiet_shutdown_drains [OF sample_queues, of "[sample_cancel]" None s] by (simp add: s_def [symmetric])
qed

definition lost_order :: InboundCommand where
  "lost_order = CmdAdd (MakeOrder 1 1 Sell 100 10)"

definition racing_actions :: "action list" where
  "racing_actions =
     [Do_matching sample_pad, Do_gateway, Do_gateway, Do_signal, Do_main, Do_gateway, Do_main, Do_matching sample_pad,
      Do_main, Do_inventory, Do_inventory, Do_publisher True, Do_publisher True, Do_main, Do_main, Do_main]"

text \<open>C38: an ordered shutdown can lose an order. A worker looks at its queue first and at the flag second. If between
  the two an order is pushed, the gateway stops and \<open>main\<close> sets the flag, the worker stops with the order
  in its queue: \<open>main\<close> returns normally, and the order was neither matched nor published.\<close>

theorem shutdown_may_lose_order:
  "\<exists>s. x_reach sample_env [lost_order] None s \<and> x_main s = Main_done \<and> x_terminated s = None \<and>
     x_inbound s = [lost_order] \<and> h_popped (x_history s) = [] \<and> x_sent s = [] \<and> x_router s = new_Router"
proof (intro exI conjI)
  let ?s = "perform sample_env racing_actions (x_init list_queues [lost_order] None)"
  show "x_reach sample_env [lost_order] None ?s" by (rule x_reach_sample)
  show "x_main ?s = Main_done" "x_terminated ?s = None" "x_inbound ?s = [lost_order]" "h_popped (x_history ?s) = []"
    "x_sent ?s = []" "x_router ?s = new_Router"
    by (simp_all add: exchange_eval racing_actions_def)
qed

text \<open>C12: the exchange never gets stuck. From every state it can reach, whatever the threads have done, there is a
  continuation in which the process ends: \<open>main\<close> returns, or an exception terminates it. In particular no
  full queue, wait or join is a deadlock.\<close>

theorem shutdown_can_complete:
  assumes "exchange_queues (e_queues E) fi fm ft" and "x_reach E cmds result s"
  shows "\<exists>t. x_steps E s t \<and> (x_terminated t \<noteq> None \<or> x_main t = Main_done)"
  using exchange_queues.can_complete [OF assms(1) exchange_queues.x_reach_inv [OF assms HOL.refl]] by simp

theorem shutdown_can_complete_witness:
  "\<exists>t. x_steps sample_env (x_init list_queues [lost_order] None) t \<and> (x_terminated t \<noteq> None \<or> x_main t = Main_done)"
  using shutdown_can_complete [OF sample_queues x_reach_sample [of "[lost_order]" None "[]"]] by simp

end
