(* ===== verification/Client_Sessions.thy ===== *)
theory Client_Sessions
  imports Client_Programs Listener Wire_Properties Gateway_Properties Exchange_Properties
begin

text \<open>
  The order generator as a client of the exchange: it never raises, and what the gateway decodes from its
  stream is an orderly session in the sense of theory Listener. With the gateway's framing, the pipeline and
  the listener this gives the way of an order through the whole system.
\<close>

section \<open>The generator never raises\<close>

text \<open>What the random module documents of its answers.\<close>

definition round_ok :: "Round \<Rightarrow> bool" where
  "round_ok rd \<longleftrightarrow>
     (case rd_uniform rd of Fin s m \<Rightarrow> 0 \<le> m \<and> m \<le> 2 | _ \<Rightarrow> False) \<and> 1 \<le> rd_volume rd \<and> rd_volume rd \<le> 100"

lemma half_even_range:
  assumes "0 \<le> y" and "y \<le> of_int n"
  shows "0 \<le> half_even y \<and> half_even y \<le> n"
proof -
  have "rat_of_int (- 1) < of_int (half_even y)" "rat_of_int (half_even y) < of_int (n + 1)"
    using assms half_even_error [of y] unfolding abs_le_iff by simp_all
  then show ?thesis unfolding of_int_less_iff by simp
qed

lemma reference_price:
  assumes "0 \<le> m" and "m \<le> 2" and "140 \<le> ref" and "ref \<le> 410"
  obtains p where "py_round (dmul (dadd (Fin False ref) (Fin s m)) (rounded (of_int wire_PRICE_MULTIPLIER))) = Inr p"
    and "in_i64 p"
proof -
  let ?x = "ref + finite_value (Fin s m)" and ?k = "1000000 :: rat"
  have x: "138 \<le> ?x" "?x \<le> 412" using assms by auto
  have nx: "normal ?x" using x(1) by (intro normal_ge_small) (simp add: order_trans [of _ 1])
  have big: "(412 :: rat) \<le> 2 ^ 1000" "(824000000 :: rat) \<le> 2 ^ 1000" by simp_all
  have "dadd (Fin False ref) (Fin s m) = Fin False (rnd ?x)"
    using x nx big(1) by (simp add: rounded_def round_double_finite)
  moreover have "rounded (of_int wire_PRICE_MULTIPLIER) = Fin False ?k"
    using rounded_int [of wire_PRICE_MULTIPLIER] by (simp add: wire_PRICE_MULTIPLIER_def)
  moreover have r: "69 \<le> rnd ?x" "rnd ?x \<le> 824" using rnd_factor_2 [OF _ nx] x by auto
  then have ny: "normal (rnd ?x * ?k)" by (intro normal_ge_small) (simp add: order_trans [of _ 1])
  ultimately have "dmul (dadd (Fin False ref) (Fin s m)) (rounded (of_int wire_PRICE_MULTIPLIER)) = Fin False (rnd (rnd ?x * ?k))"
    using r big(2) by (simp add: round_double_finite)
  moreover have "0 \<le> rnd (rnd ?x * ?k)" "rnd (rnd ?x * ?k) \<le> 1648000000"
    using rnd_factor_2 [OF _ ny] r by auto
  then have "in_i64 (half_even (rnd (rnd ?x * ?k)))"
    using half_even_range [of "rnd (rnd ?x * ?k)" 1648000000] by (simp add: in_i64_def)
  ultimately show thesis by (intro that) simp_all
qed

lemma ticker_bytes: "t \<in> set INSTRUMENTS \<Longrightarrow> list_all is_ascii (char_bytes t) \<and> length t \<le> 4 \<and> NUL \<notin> set t"
  by (auto simp: INSTRUMENTS_def is_ascii_def char_bytes_def byte_of_def NUL_def)

lemma instruments_agree: "wire_INSTRUMENTS = INSTRUMENTS"
  by (simp add: wire_INSTRUMENTS_def INSTRUMENTS_def)

lemma py_choice_in: "xs \<noteq> [] \<Longrightarrow> \<exists>x \<in> set xs. py_choice i xs = Inr x"
  by (auto simp: py_choice_def intro!: bexI [of _ "xs ! (i mod length xs)"])

lemma random_order_add_ok:
  assumes "round_ok rd" and "in_i64 i"
  obtains message t side p where "random_order_add i rd = Inr (message, t, side, p, rd_volume rd)"
    and "encode_order_add i USER_ID t side p (rd_volume rd) = Inr message" and "t \<in> set INSTRUMENTS"
proof -
  obtain t where t: "t \<in> set INSTRUMENTS" "py_choice (rd_ticker rd) wire_INSTRUMENTS = Inr t"
    using py_choice_in [of INSTRUMENTS] by (auto simp: instruments_agree INSTRUMENTS_def)
  obtain side where side: "side \<in> {0, 1}" "py_choice (rd_side rd) [SIDE_BUY, SIDE_SELL] = Inr side"
    using py_choice_in [of "[SIDE_BUY, SIDE_SELL]"] by (auto simp: SIDE_BUY_def SIDE_SELL_def)
  obtain s m where u: "rd_uniform rd = Fin s m" "0 \<le> m" "m \<le> 2"
    using assms(1) by (auto simp: round_ok_def split: double.splits)
  obtain ref where ref: "subscript REFERENCE_PRICES t = Inr (Fin False ref)" "140 \<le> ref" "ref \<le> 410"
    using t(1) by (auto simp: subscript_def REFERENCE_PRICES_def INSTRUMENTS_def)
  obtain p where p: "py_round (dmul (dadd (Fin False ref) (Fin s m)) (rounded (of_int wire_PRICE_MULTIPLIER))) = Inr p" "in_i64 p"
    by (rule reference_price [OF u(2,3) ref(2,3)])
  obtain message where message: "encode_order_add i USER_ID t side p (rd_volume rd) = Inr message"
    using assms t(1) side(1) p(2) ticker_bytes [OF t(1)]
    by (auto simp: encode_order_add_eq USER_ID_def in_i64_def round_ok_def wire_sizes)
  show thesis
    by (rule that [OF _ message t(1)]) (simp only: random_order_add_def t side ref u(1) p bind_res_simps Let_def message)
qed

section \<open>Its session is orderly\<close>

definition generator_ok :: "OrderAdd list \<Rightarrow> Generator \<Rightarrow> bool" where
  "generator_ok seen g \<longleftrightarrow>
     1 \<le> gn_next_order_id g \<and> distinct (map a_orderId seen) \<and>
     (\<forall>order \<in> set seen. num (a_userId order) = USER_ID \<and> num (a_orderId order) < gn_next_order_id g \<and>
        a_ticker order \<in> set INSTRUMENTS) \<and>
     (\<forall>(i, t) \<in> set (gn_open_orders g). \<exists>order \<in> set seen. num (a_orderId order) = i \<and> a_ticker order = t)"

lemma update_subset: "set (AList.update k v al) \<subseteq> insert (k, v) (set al)"
  by (induction al) auto

lemma generator_ok_new: "generator_ok [] new_Generator"
  by (simp add: generator_ok_def new_Generator_def)

fun sent_orders :: "InboundCommand \<Rightarrow> OrderAdd list \<Rightarrow> OrderAdd list" where
  "sent_orders (CmdAdd order) seen = order # seen"
| "sent_orders (CmdCancel cancel) seen = seen"

definition next_request :: "(string \<Rightarrow> Ticker res) \<Rightarrow> OrderAdd list \<Rightarrow> Generator \<Rightarrow> byte list \<Rightarrow> Generator \<Rightarrow> InboundCommand \<Rightarrow> bool" where
  "next_request mk seen g message g' cmd \<longleftrightarrow>
     length message = sizeof_InboundWireMessage \<and> DecodeInboundMessage mk (InboundWireMessage_at message) = Inr cmd \<and>
     cmd_ticker cmd \<in> set INSTRUMENTS \<and> generator_ok (sent_orders cmd seen) g' \<and>
     gn_next_order_id g' \<le> gn_next_order_id g + 1 \<and> (\<forall>cmds. orderly (sent_orders cmd seen) cmds \<longrightarrow> orderly seen (cmd # cmds))"

lemma generator_cancels:
  assumes "static_string mk" and "generator_ok seen g" and "gn_next_order_id g < 2 ^ 63" and "gn_open_orders g \<noteq> []" and "rd_cancel rd"
  obtains message g' cmd where "generator_round rd g = Inr (message, g')" and "next_request mk seen g message g' cmd"
proof -
  obtain i where i: "i \<in> fst ` set (gn_open_orders g)" "py_choice (rd_open rd) (map fst (gn_open_orders g)) = Inr i"
    using py_choice_in [of "map fst (gn_open_orders g)" "rd_open rd"] assms(4) by auto
  then obtain t where t: "map_of (gn_open_orders g) i = Some t" by (auto simp: map_of_eq_None_iff dest: weak_map_of_SomeI)
  then obtain order where order: "order \<in> set seen" "num (a_orderId order) = i" "a_ticker order = t"
    using assms(2) map_of_SomeD [OF t] by (fastforce simp: generator_ok_def)
  then have tl: "t \<in> set INSTRUMENTS" and r: "in_i64 i"
    using assms(2) num_range [of "a_orderId order"] by (auto simp: generator_ok_def in_i64_def)
  obtain message where message: "encode_order_cancel i USER_ID t = Inr message"
    using ticker_bytes [OF tl] r by (simp add: encode_order_cancel_eq USER_ID_def in_i64_def wire_sizes)
  have "NUL \<notin> set t" using ticker_bytes [OF tl] by simp
  from cancel_message_decodes [OF assms(1) message this] obtain cancel where
    len: "length message = sizeof_InboundWireMessage" and
    cancel: "DecodeInboundMessage mk (InboundWireMessage_at message) = Inr (CmdCancel cancel)"
      "num (c_orderId cancel) = i" "num (c_userId cancel) = USER_ID" "c_ticker cancel = t" by blast
  let ?g = "g\<lparr>gn_open_orders := AList.delete i (gn_open_orders g)\<rparr>"
  have "a_userId o1 = c_userId cancel \<and> a_ticker o1 = c_ticker cancel" if "o1 \<in> set seen" "a_orderId o1 = c_orderId cancel" for o1
  proof -
    have "a_orderId o1 = a_orderId order" using that cancel(2) order(2) by (metis num_inject)
    then have "o1 = order" using assms(2) that(1) order(1) by (auto simp: generator_ok_def distinct_map dest: inj_onD)
    then show ?thesis using assms(2) order cancel by (metis generator_ok_def num_inject)
  qed
  moreover have "generator_ok seen ?g" using assms(2) by (auto simp: generator_ok_def AList.delete_eq)
  ultimately have "next_request mk seen g message ?g (CmdCancel cancel)"
    using len cancel tl by (simp add: next_request_def)
  moreover have "generator_round rd g = Inr (message, ?g)"
    using assms(4,5) i t message by (simp add: generator_round_def subscript_def Let_def)
  ultimately show thesis using that by blast
qed

lemma generator_adds:
  assumes "static_string mk" and "generator_ok seen g" and "gn_next_order_id g < 2 ^ 63" and "round_ok rd"
    and "\<not> (gn_open_orders g \<noteq> [] \<and> rd_cancel rd)"
  obtains message g' cmd where "generator_round rd g = Inr (message, g')" and "next_request mk seen g message g' cmd"
proof -
  let ?i = "gn_next_order_id g"
  have "in_i64 ?i" using assms(2,3) by (simp add: generator_ok_def in_i64_def)
  from random_order_add_ok [OF assms(4) this] obtain message t side p where
    r: "random_order_add ?i rd = Inr (message, t, side, p, rd_volume rd)"
    and message: "encode_order_add ?i USER_ID t side p (rd_volume rd) = Inr message" and t: "t \<in> set INSTRUMENTS" .
  have "NUL \<notin> set t" using ticker_bytes [OF t] by simp
  from order_message_decodes [OF assms(1) message this] obtain order where
    len: "length message = sizeof_InboundWireMessage" and
    order: "DecodeInboundMessage mk (InboundWireMessage_at message) = Inr (CmdAdd order)"
      "num (a_orderId order) = ?i" "num (a_userId order) = USER_ID" "a_ticker order = t" "num (a_volume order) = rd_volume rd" by blast
  let ?g = "g\<lparr>gn_open_orders := AList.update ?i t (gn_open_orders g), gn_next_order_id := ?i + 1\<rparr>"
  have new: "a_orderId order \<notin> a_orderId ` set seen" and v: "0 < a_volume order"
    using assms(2,4) order(2) num_sign(2) [of "a_volume order"] unfolding order(5)
    by (auto simp: generator_ok_def round_ok_def simp del: num_sign)
  have open_orders: "set (AList.update ?i t (gn_open_orders g)) \<subseteq> insert (?i, t) (set (gn_open_orders g))"
    by (rule update_subset)
  have "generator_ok (order # seen) ?g"
    using assms(2) new order t open_orders by (fastforce simp: generator_ok_def)
  then have "next_request mk seen g message ?g (CmdAdd order)"
    using len order new v t by (simp add: next_request_def)
  moreover have "generator_round rd g = Inr (message, ?g)"
    using assms(5) r by (auto simp: generator_round_def Let_def)
  ultimately show thesis using that by blast
qed

lemma generator_next:
  assumes "static_string mk" and "generator_ok seen g" and "gn_next_order_id g < 2 ^ 63" and "round_ok rd"
  obtains message g' cmd where "generator_round rd g = Inr (message, g')" and "next_request mk seen g message g' cmd"
  using generator_cancels [OF assms(1-3), of rd thesis] generator_adds [OF assms, of thesis] by blast

lemma generator_session:
  assumes "static_string mk" and "generator_ok seen g" and "gn_next_order_id g + int (length rds) \<le> 2 ^ 63" and "list_all round_ok rds"
  shows "\<exists>messages cmds. generator_main rds g = Inr messages \<and>
    list_all (\<lambda>m. length m = sizeof_InboundWireMessage) messages \<and> length messages = length rds \<and>
    decode_frames mk messages = (None, cmds) \<and> orderly seen cmds \<and> list_all (\<lambda>c. cmd_ticker c \<in> set INSTRUMENTS) cmds"
  using assms(2-)
proof (induction rds arbitrary: seen g)
  case Nil
  then show ?case by simp
next
  case (Cons rd rds)
  have lt: "gn_next_order_id g < 2 ^ 63" "round_ok rd" using Cons.prems(2,3) by simp_all
  obtain message g' cmd where r: "generator_round rd g = Inr (message, g')" and n: "next_request mk seen g message g' cmd"
    by (rule generator_next [OF assms(1) Cons.prems(1) lt])
  have ok: "generator_ok (sent_orders cmd seen) g'" and step: "gn_next_order_id g' \<le> gn_next_order_id g + 1"
    using n by (simp_all add: next_request_def)
  obtain messages cmds where "generator_main rds g' = Inr messages"
    "list_all (\<lambda>m. length m = sizeof_InboundWireMessage) messages" "length messages = length rds"
    "decode_frames mk messages = (None, cmds)"
    "orderly (sent_orders cmd seen) cmds" "list_all (\<lambda>c. cmd_ticker c \<in> set INSTRUMENTS) cmds"
    using Cons.IH [OF ok] Cons.prems(2,3) step by auto
  then show ?case
    using r n by (intro exI [of _ "message # messages"] exI [of _ "cmd # cmds"]) (simp add: next_request_def)
qed

section \<open>From the feed to the listener\<close>

fun item_ticker :: "feed_item \<Rightarrow> Ticker" where
  "item_ticker (Add_item order) = a_ticker order"
| "item_ticker (Cancel_item cancel) = c_ticker cancel"
| "item_ticker (Trade_item trade) = t_ticker trade"

lemma router_step_tickers:
  assumes "router_ok r" and "t \<in> set (snd (router_step c r))"
  shows "t_ticker t = cmd_ticker c"
proof (cases "cmd_ticker c \<in> set INSTRUMENTS")
  case True
  then show ?thesis
    using assms(2) engine_step_ticker [OF engine_at_inv [OF assms(1) True]]
    by (auto simp: router_step_cases [OF assms(1)] case_prod_beta)
qed (use assms in \<open>simp add: router_step_cases\<close>)

lemma feed_step_tickers:
  assumes "router_ok r" and "item \<in> set (snd (feed_step c r))"
  shows "item_ticker item = cmd_ticker c"
  using assms(2) router_step_tickers [OF assms(1), of _ c]
  by (cases c) (auto simp: case_prod_beta simp del: router_step.simps)

lemma feed_tickers: "item \<in> set (feed_of cmds) \<Longrightarrow> item_ticker item \<in> cmd_ticker ` set cmds"
proof (induction cmds rule: rev_induct)
  case (snoc c cmds)
  then show ?case
    using feed_step_tickers [OF router_ok_book_after, of item c cmds] by (auto simp: sequential_snoc(3))
qed simp

lemma trades_tickers: "t \<in> set (trades_of cmds) \<Longrightarrow> t_ticker t \<in> cmd_ticker ` set cmds"
proof (induction cmds rule: rev_induct)
  case (snoc c cmds)
  then show ?case
    using router_step_tickers [OF router_ok_book_after, of t c cmds] by (auto simp: sequential_snoc(2) simp del: router_step.simps)
qed simp

lemma decode_datagram:
  assumes "encoded msg item" and "feedable (item_ticker item)"
  shows "decode_market_data (bytes_WireMarketDataMessage msg) = Inr (item_event item)"
proof -
  obtain pad where pad: "length pad = sizeof_WireTradeEvent - sizeof_WireOrderAdd" and msg: "msg = encode_item pad item"
    using assms(1) by (auto simp: encoded_def pad_ok_def)
  have side: "side_text side = (if side = Buy then ''Buy'' else ''Sell'')" for side by (cases side) auto
  show ?thesis
    using assms(2) pad unfolding msg
    by (cases item) (simp_all add: encode_item.simps side decode_EncodeOrderAddEvent decode_EncodeOrderCancelEvent decode_EncodeTradeEvent)
qed

text \<open>The datagrams among what the listener's \<open>recvfrom\<close> returns.\<close>

fun arrived :: "byte list option list \<Rightarrow> byte list list" where
  "arrived [] = []"
| "arrived (None # rs) = arrived rs"
| "arrived (Some d # rs) = d # arrived rs"

lemma listener_main_events:
  assumes "list_all2 encoded msgs items" and "\<forall>item \<in> set items. feedable (item_ticker item)"
    and "arrived received = map bytes_WireMarketDataMessage msgs"
  shows "listener_main received book = Inr (fold apply_event (map item_event items) book)"
  using assms
proof (induction received arbitrary: msgs items book)
  case (Cons r received)
  show ?case
  proof (cases r)
    case None
    then show ?thesis using Cons by (simp add: listener_round_def)
  next
    case (Some d)
    then obtain msg msgs' item items' where "msgs = msg # msgs'" "items = item # items'" "d = bytes_WireMarketDataMessage msg"
      using Cons.prems by (cases msgs) (auto simp: list_all2_Cons1)
    then show ?thesis
      using Cons.prems Some Cons.IH [of msgs' items'] decode_datagram [of msg item] by (simp add: listener_round_def)
  qed
qed simp

lemma frames_concat: "list_all (\<lambda>m. length m = sizeof_InboundWireMessage) ms \<Longrightarrow> frames (concat ms) = ms"
  by (induction ms) (auto simp: wire_sizes)

lemma listed_feedable: "t \<in> set INSTRUMENTS \<Longrightarrow> feedable t"
  using ticker_bytes [of t] by (simp add: feedable_def ticker_ok_def MAX_TICKER_LENGTH_def)

end
