(* ===== verification/Publisher.thy ===== *)
theory Publisher
  imports Exchange Gateway
begin

text \<open>
  \<open>MarketDataPublisher\<close> of \<open>common/net/market_data_publisher.hpp\<close> and \<open>.cpp\<close>: the socket it owns and how it is
  set up. The system is the environment: the results of \<open>socket\<close> and \<open>inet_pton\<close> are parameters, and the
  descriptors that are open and the socket options that were set are recorded. The loop of \<open>Run\<close> is a thread
  of theory Exchange. At the end, the start of \<open>main\<close>, which builds the gateway and the publisher.
\<close>

unbundle bit_operations_syntax

section \<open>State\<close>

text \<open>\<open>htons\<close> and \<open>htonl\<close> on the little-endian machines the wire structs are laid out for.\<close>

definition htons :: "16 word \<Rightarrow> 16 word" where
  "htons p = push_bit 8 p OR drop_bit 8 p"

definition htonl :: "32 word \<Rightarrow> 32 word" where
  "htonl a = push_bit 24 a OR (push_bit 8 a AND 0xFF0000) OR (drop_bit 8 a AND 0xFF00) OR drop_bit 24 a"

definition AF_INET :: nat where
  "AF_INET = 2"

definition INADDR_LOOPBACK :: "32 word" where
  "INADDR_LOOPBACK = 0x7F000001"

record sockaddr_in =
  sin_family :: nat
  sin_port :: "16 word"
  sin_addr :: "32 word"

datatype sockopt = IP_MULTICAST_TTL byte | IP_MULTICAST_IF "32 word" | IP_MULTICAST_LOOP byte

record Sockets =
  so_open :: "int set"
  so_options :: "(int \<times> sockopt) list"

record MarketDataPublisher =
  mp_socketFd :: int
  mp_destination :: sockaddr_in

definition setsockopt :: "int \<Rightarrow> sockopt \<Rightarrow> Sockets \<Rightarrow> Sockets" where
  "setsockopt fd opt k = k\<lparr>so_options := so_options k @ [(fd, opt)]\<rparr>"

definition close_socket :: "int \<Rightarrow> Sockets \<Rightarrow> Sockets" where
  "close_socket fd k = k\<lparr>so_open := so_open k - {fd}\<rparr>"

section \<open>Construction and destruction\<close>

text \<open>
  \<open>socket\<close> returned \<open>fd\<close>, a descriptor it opened unless the number is negative; \<open>inet_pton\<close> gives an address in
  network order or fails. The members start out as \<open>-1\<close> and zero.
\<close>

definition new_MarketDataPublisher ::
  "bool \<Rightarrow> int \<Rightarrow> (string \<Rightarrow> 32 word option) \<Rightarrow> string \<Rightarrow> 16 word \<Rightarrow> Sockets \<Rightarrow> MarketDataPublisher res \<times> Sockets" where
  "new_MarketDataPublisher Local fd inet_pton multicastAddress port k =
     (let this = \<lparr>mp_socketFd = -1, mp_destination = \<lparr>sin_family = 0, sin_port = 0, sin_addr = 0\<rparr>\<rparr>;
          this = this\<lparr>mp_socketFd := fd\<rparr>
      in if mp_socketFd this < 0 then (Inl (RuntimeError ''MarketDataPublisher: socket() failed''), k)
      else let k = k\<lparr>so_open := insert fd (so_open k)\<rparr>;
               this = this\<lparr>mp_destination := (mp_destination this)\<lparr>sin_family := AF_INET, sin_port := htons port\<rparr>\<rparr>
      in case inet_pton multicastAddress of
           None \<Rightarrow>
             (Inl (RuntimeError (''MarketDataPublisher: invalid multicast address '' @ multicastAddress)),
              close_socket (mp_socketFd this) k)
         | Some addr \<Rightarrow>
             let this = this\<lparr>mp_destination := (mp_destination this)\<lparr>sin_addr := addr\<rparr>\<rparr>;
                 k = setsockopt (mp_socketFd this) (IP_MULTICAST_TTL 1) k;
                 k = (if Local
                      then setsockopt (mp_socketFd this) (IP_MULTICAST_LOOP 1)
                             (setsockopt (mp_socketFd this) (IP_MULTICAST_IF (htonl INADDR_LOOPBACK)) k)
                      else k)
             in (Inr this, k))"

definition delete_MarketDataPublisher :: "MarketDataPublisher \<Rightarrow> Sockets \<Rightarrow> Sockets" where
  "delete_MarketDataPublisher this k = (if mp_socketFd this \<ge> 0 then close_socket (mp_socketFd this) k else k)"

section \<open>The start of \<open>main\<close>\<close>

definition GATEWAY_PORT :: "16 word" where
  "GATEWAY_PORT = 9000"

definition MARKET_DATA_MULTICAST_ADDRESS :: string where
  "MARKET_DATA_MULTICAST_ADDRESS = ''239.1.1.1''"

definition MARKET_DATA_PORT :: "16 word" where
  "MARKET_DATA_PORT = 30001"

text \<open>
  \<open>main\<close> builds the gateway and the publisher, whose constructor may throw, and then starts the threads. \<open>fd\<close>,
  \<open>inet_pton\<close>, \<open>su\<close>, \<open>batches\<close> and \<open>knl\<close> are what the system answers to the publisher and to the gateway.
\<close>

definition main_start ::
  "(string \<Rightarrow> Ticker res) \<Rightarrow> Setup \<Rightarrow> int list list \<Rightarrow> Kernel \<Rightarrow> int \<Rightarrow> (string \<Rightarrow> 32 word option) \<Rightarrow> Sockets
   \<Rightarrow> ('qi, 'qm, 'qt) ExchangeQueues \<Rightarrow> ('qi, 'qm, 'qt) Exchange \<times> Sockets" where
  "main_start mk su batches knl fd inet_pton k Q =
     (let gateway = new_Gateway GATEWAY_PORT
      in case new_MarketDataPublisher True fd inet_pton MARKET_DATA_MULTICAST_ADDRESS MARKET_DATA_PORT k of
           (Inl e, k) \<Rightarrow> ((x_init Q [] None)\<lparr>x_terminated := Some e\<rparr>, k)
         | (Inr publisher, k) \<Rightarrow>
             (case Run mk su batches gateway knl of (e, gateway, knl, cmds) \<Rightarrow> (x_init Q cmds e, k)))"

section \<open>Properties\<close>

text \<open>C40: the publisher owns exactly one descriptor. If its constructor throws, no descriptor is left open and
  the reason is a failed \<open>socket\<close> or an address that does not parse; if it returns, datagrams go to the given
  address and port with a time to live of one, through the loopback interface exactly when \<open>Local\<close>, and
  the destructor closes what the constructor opened.\<close>

theorem publisher_lifecycle:
  assumes "fd \<notin> so_open k"
  shows "case new_MarketDataPublisher Local fd inet_pton addr port k of
      (Inl e, k') \<Rightarrow> k' = k \<and> (fd < 0 \<or> inet_pton addr = None)
    | (Inr p, k') \<Rightarrow>
        so_open k' = insert fd (so_open k) \<and> so_open (delete_MarketDataPublisher p k') = so_open k \<and>
        mp_destination p = \<lparr>sin_family = AF_INET, sin_port = htons port, sin_addr = the (inet_pton addr)\<rparr> \<and>
        so_options k' = so_options k @ (fd, IP_MULTICAST_TTL 1) #
          (if Local then [(fd, IP_MULTICAST_IF (htonl INADDR_LOOPBACK)), (fd, IP_MULTICAST_LOOP 1)] else [])"
  using assms
  by (auto simp: new_MarketDataPublisher_def delete_MarketDataPublisher_def setsockopt_def close_socket_def Let_def
      split: option.splits)

theorem publisher_lifecycle_witness:
  "case new_MarketDataPublisher True 5 (\<lambda>s. Some 0x010101EF) MARKET_DATA_MULTICAST_ADDRESS MARKET_DATA_PORT
      \<lparr>so_open = {3, 4}, so_options = []\<rparr> of
     (Inl e, k) \<Rightarrow> False
   | (Inr p, k) \<Rightarrow> so_open k = {3, 4, 5} \<and> so_open (delete_MarketDataPublisher p k) = {3, 4} \<and>
       sin_port (mp_destination p) = 0x3175"
  using publisher_lifecycle
    [where fd = 5 and k = "\<lparr>so_open = {3, 4}, so_options = []\<rparr>" and Local = True and inet_pton = "\<lambda>s. Some 0x010101EF"
      and addr = MARKET_DATA_MULTICAST_ADDRESS and port = MARKET_DATA_PORT]
  by (auto simp: MARKET_DATA_PORT_def htons_def split: prod.splits sum.splits)

end
