(* ===== verification/Seqlock_Threads.thy ===== *)
theory Seqlock_Threads
  imports Seqlock
begin

unbundle bit_operations_syntax

text \<open>
  \<open>Seqlock<T>\<close> shared by its writer and a reader, one memory access per step. The value is a block of
  machine words that \<open>Store\<close> and \<open>Load\<close> copy one at a time, so a reader can see a half-written value;
  the sequence number is the 64-bit counter of the source and wraps. Accesses take effect in program
  order and in one global order, the ordering the comment in \<open>common/core/seqlock.hpp\<close> relies on. A reader
  writes nothing shared, so one reader stands for any number of them.

  Two history variables that the code does not have record what the properties speak about: \<open>sh_hist\<close>,
  the initial value and every value stored so far, and \<open>sh_count\<close>, the number of stores to the sequence
  number, which does not wrap.
\<close>

section \<open>Shared memory and the two threads\<close>

record 'w Shared =
  sh_sequence :: "64 word"
  sh_value :: "'w list"
  sh_hist :: "'w list list"
  sh_count :: nat

datatype 'w Writer = W_idle | W_loaded "64 word" "'w list" | W_copy "64 word" "'w list" nat

text \<open>\<open>R_start n\<close>: a call of \<open>Load\<close> that began after \<open>n\<close> completed stores; \<open>m\<close> is the history count at \<open>before\<close>.\<close>

datatype 'w Reader =
    R_start nat
  | R_copy nat (r_count: nat) "64 word" "'w list"
  | R_after nat nat "64 word" "'w list" "64 word"
  | R_done nat nat "'w list"

record 'w SL_State =
  sl_shared :: "'w Shared"
  sl_writer :: "'w Writer"
  sl_reader :: "'w Reader"

definition sl_init :: "'w list \<Rightarrow> 'w SL_State" where
  "sl_init v =
     \<lparr>sl_shared = \<lparr>sh_sequence = 0, sh_value = v, sh_hist = [v], sh_count = 0\<rparr>,
      sl_writer = W_idle, sl_reader = R_start 0\<rparr>"

definition stores :: "'w Shared \<Rightarrow> nat" where
  "stores m = length (sh_hist m) - 1"

text \<open>One access of \<open>Store(v)\<close>: load the number, make it odd, copy the words, make it even.\<close>

fun Store_step :: "'w list \<Rightarrow> 'w Shared \<Rightarrow> 'w Writer \<Rightarrow> 'w Shared \<times> 'w Writer" where
  "Store_step v m W_idle = (m, W_loaded (sh_sequence m) v)"
| "Store_step _ m (W_loaded seq v) =
     (m\<lparr>sh_sequence := seq + 1, sh_count := sh_count m + 1\<rparr>, W_copy seq v 0)"
| "Store_step _ m (W_copy seq v i) =
     (if i < length (sh_value m)
      then (m\<lparr>sh_value := (sh_value m)[i := v ! i]\<rparr>, W_copy seq v (i + 1))
      else (m\<lparr>sh_sequence := seq + 2, sh_count := sh_count m + 1, sh_hist := sh_hist m @ [v]\<rparr>, W_idle))"

text \<open>One access of \<open>Load\<close>; the loop starts over unless both numbers agree and are even.\<close>

fun Load_step :: "'w Shared \<Rightarrow> 'w Reader \<Rightarrow> 'w Reader" where
  "Load_step m (R_start n) = R_copy n (sh_count m) (sh_sequence m) []"
| "Load_step m (R_copy n c before result) =
     (if length result < length (sh_value m)
      then R_copy n c before (result @ [sh_value m ! length result])
      else R_after n c before result (sh_sequence m))"
| "Load_step m (R_after n c before result after) =
     (if before \<noteq> after \<or> before AND 1 \<noteq> 0 then R_start n else R_done n c result)"
| "Load_step m (R_done n c result) = R_start (stores m)"

text \<open>Any interleaving; a store is of a value of the right size.\<close>

inductive sl_step :: "'w SL_State \<Rightarrow> 'w SL_State \<Rightarrow> bool" where
  store: "length v = length (sh_value (sl_shared s)) \<Longrightarrow> Store_step v (sl_shared s) (sl_writer s) = (m, w) \<Longrightarrow>
    sl_step s (s\<lparr>sl_shared := m, sl_writer := w\<rparr>)"
| load: "sl_step s (s\<lparr>sl_reader := Load_step (sl_shared s) (sl_reader s)\<rparr>)"

inductive sl_reach :: "'w list \<Rightarrow> 'w SL_State \<Rightarrow> bool" for v0 where
  start: "sl_reach v0 (sl_init v0)"
| step: "sl_reach v0 s \<Longrightarrow> sl_step s s' \<Longrightarrow> sl_reach v0 s'"

section \<open>Invariant\<close>

text \<open>
  The writer side: the count is even and the value is the last one stored exactly while no copy is in
  progress, and the sequence number is the count modulo its width.
\<close>

definition shared_ok :: "nat \<Rightarrow> 'w Shared \<Rightarrow> bool" where
  "shared_ok k m \<longleftrightarrow>
     sh_sequence m = word_of_nat (sh_count m) \<and> length (sh_value m) = k \<and> sh_hist m \<noteq> [] \<and>
     sh_count m div 2 = stores m"

fun writer_ok :: "'w Shared \<Rightarrow> 'w Writer \<Rightarrow> bool" where
  "writer_ok m W_idle \<longleftrightarrow> even (sh_count m) \<and> sh_value m = last (sh_hist m)"
| "writer_ok m (W_loaded seq v) \<longleftrightarrow>
     even (sh_count m) \<and> sh_value m = last (sh_hist m) \<and> seq = sh_sequence m \<and> length v = length (sh_value m)"
| "writer_ok m (W_copy seq v i) \<longleftrightarrow>
     odd (sh_count m) \<and> seq + 1 = sh_sequence m \<and> length v = length (sh_value m) \<and>
     take i (sh_value m) = take i v"

text \<open>
  The reader side: what it has copied is a prefix of the current value unless the writer has moved on.
\<close>

definition snapshot :: "'w Shared \<Rightarrow> nat \<Rightarrow> nat \<Rightarrow> 'w list \<Rightarrow> bool" where
  "snapshot m n c result \<longleftrightarrow>
     n \<le> c div 2 \<and> c \<le> sh_count m \<and> length result \<le> length (sh_value m) \<and>
     (c = sh_count m \<and> even c \<longrightarrow> take (length result) (sh_hist m ! (c div 2)) = result)"

fun reader_ok :: "'w Shared \<Rightarrow> 'w Reader \<Rightarrow> bool" where
  "reader_ok m (R_start n) \<longleftrightarrow> n \<le> stores m"
| "reader_ok m (R_copy n c before result) \<longleftrightarrow> before = word_of_nat c \<and> snapshot m n c result"
| "reader_ok m (R_after n c before result after) \<longleftrightarrow>
     before = word_of_nat c \<and> length result = length (sh_value m) \<and> n \<le> c div 2 \<and>
     (\<exists>d. after = word_of_nat d \<and> c \<le> d \<and> d \<le> sh_count m \<and>
       (c = d \<and> even c \<longrightarrow> c div 2 < length (sh_hist m) \<and> result = sh_hist m ! (c div 2)))"
| "reader_ok m (R_done n c result) \<longleftrightarrow>
     n \<le> c div 2 \<and> c div 2 < length (sh_hist m) \<and> result = sh_hist m ! (c div 2)"

definition sl_inv :: "nat \<Rightarrow> 'w SL_State \<Rightarrow> bool" where
  "sl_inv k s \<longleftrightarrow>
     shared_ok k (sl_shared s) \<and> writer_ok (sl_shared s) (sl_writer s) \<and> reader_ok (sl_shared s) (sl_reader s)"

lemma sl_inv_init: "sl_inv (length v) (sl_init v)"
  by (simp add: sl_inv_def sl_init_def shared_ok_def stores_def)

lemma Store_step_ok:
  assumes "shared_ok k m" and "writer_ok m w" and "length v = length (sh_value m)" and "Store_step v m w = (m', w')"
  shows "shared_ok k m' \<and> writer_ok m' w' \<and> sh_count m \<le> sh_count m'"
proof (cases w)
  case W_idle
  then show ?thesis using assms by auto
next
  case (W_loaded seq u)
  then show ?thesis using assms by (auto simp: shared_ok_def stores_def)
next
  case (W_copy seq u i)
  show ?thesis
  proof (cases "i < length (sh_value m)")
    case True
    then have "take (Suc i) ((sh_value m)[i := u ! i]) = take (Suc i) u"
      using assms(2) W_copy by (simp add: take_Suc_conv_app_nth)
    then show ?thesis using assms W_copy True by (auto simp: shared_ok_def stores_def)
  next
    case False
    have "seq + 2 = (seq + 1) + 1" by simp
    then have "seq + 2 = word_of_nat (sh_count m + 1)"
      using assms(1,2) W_copy by (simp only: shared_ok_def writer_ok.simps of_nat_add of_nat_1)
    moreover have "Suc (sh_count m) div 2 = Suc (stores m)"
      using assms(1,2) W_copy by (auto simp: shared_ok_def elim!: oddE)
    ultimately show ?thesis
      using assms W_copy False by (auto simp: shared_ok_def stores_def Suc_diff_le)
  qed
qed

lemma Store_step_reader:
  assumes "shared_ok k m" and "writer_ok m w" and "length v = length (sh_value m)" and "Store_step v m w = (m', w')"
    and "reader_ok m r"
  shows "reader_ok m' r"
proof -
  have mono: "length (sh_value m') = length (sh_value m)" "sh_count m \<le> sh_count m'"
    using assms(4) by (cases w; auto split: if_splits)+
  have same: "sh_count m' = sh_count m \<Longrightarrow> even (sh_count m) \<Longrightarrow> m' = m"
    using assms(2,4) by (cases w) (auto split: if_splits)
  have "sh_hist m' = sh_hist m \<or> (\<exists>u. sh_hist m' = sh_hist m @ [u])"
    using assms(4) by (cases w) (auto split: if_splits)
  then obtain us where hist: "sh_hist m' = sh_hist m @ us" by (metis append_Nil2)
  have "stores m \<le> stores m'" by (simp add: stores_def hist)
  show ?thesis
  proof (cases r)
    case (R_copy n c before result)
    show ?thesis
    proof (cases "c = sh_count m' \<and> even c")
      case True
      then have "sh_count m' = sh_count m" using assms(5) mono R_copy by (simp add: snapshot_def)
      then have "m' = m" using True same by auto
      then show ?thesis using assms(5) by simp
    next
      case False
      then show ?thesis using assms(5) mono R_copy by (auto simp: snapshot_def)
    qed
  next
    case (R_after n c before result after)
    then obtain d where "after = word_of_nat d" "c \<le> d" "d \<le> sh_count m"
      "c = d \<and> even c \<longrightarrow> c div 2 < length (sh_hist m) \<and> result = sh_hist m ! (c div 2)"
      using assms(5) by auto
    then have "after = word_of_nat d \<and> c \<le> d \<and> d \<le> sh_count m' \<and>
        (c = d \<and> even c \<longrightarrow> c div 2 < length (sh_hist m') \<and> result = sh_hist m' ! (c div 2))"
      using mono(2) by (auto simp: hist nth_append)
    then show ?thesis using assms(5) mono(1) R_after by auto
  qed (use assms(5) \<open>stores m \<le> stores m'\<close> in \<open>auto simp: hist nth_append\<close>)
qed

lemma current_value:
  assumes "shared_ok k m" and "writer_ok m w" and "even (sh_count m)"
  shows "sh_hist m ! (sh_count m div 2) = sh_value m"
  using assms by (cases w) (auto simp: shared_ok_def stores_def last_conv_nth)

lemma Load_step_ok:
  assumes "shared_ok k m" and "writer_ok m w" and "reader_ok m r" and "sh_count m < 2 ^ 64"
  shows "reader_ok m (Load_step m r)"
proof (cases r)
  case (R_start n)
  then show ?thesis using assms(1,3) by (auto simp: snapshot_def shared_ok_def)
next
  case (R_copy n c before result)
  show ?thesis
  proof (cases "length result < length (sh_value m)")
    case True
    have "take (Suc (length result)) (sh_hist m ! (c div 2)) = result @ [sh_value m ! length result]"
      if "c = sh_count m" "even c"
      using assms(3) R_copy True that current_value [OF assms(1,2)]
      by (simp add: snapshot_def take_Suc_conv_app_nth)
    then show ?thesis using assms(3) R_copy True by (auto simp: snapshot_def)
  next
    case False
    then have "length result = length (sh_value m)" using assms(3) R_copy by (simp add: snapshot_def)
    moreover have "c = sh_count m \<and> even c \<longrightarrow> c div 2 < length (sh_hist m) \<and> result = sh_hist m ! (c div 2)"
    proof (intro impI)
      assume c: "c = sh_count m \<and> even c"
      then have "take (length result) (sh_value m) = result"
        using assms(3) R_copy current_value [OF assms(1,2)] by (auto simp: snapshot_def)
      then have "result = sh_value m" using calculation by simp
      moreover have "sh_hist m ! (c div 2) = sh_value m" using c current_value [OF assms(1,2)] by blast
      moreover have "c div 2 < length (sh_hist m)"
        using c assms(1) by (auto simp: shared_ok_def stores_def)
      ultimately show "c div 2 < length (sh_hist m) \<and> result = sh_hist m ! (c div 2)" by simp
    qed
    ultimately show ?thesis
      using assms(1,3) R_copy False by (auto simp: snapshot_def shared_ok_def intro!: exI [of _ "sh_count m"])
  qed
next
  case (R_after n c before result after)
  then obtain d where d: "before = word_of_nat c" "after = word_of_nat d" "c \<le> d" "d \<le> sh_count m"
    "c = d \<and> even c \<longrightarrow> c div 2 < length (sh_hist m) \<and> result = sh_hist m ! (c div 2)" "n \<le> c div 2"
    using assms(3) by auto
  have n: "n \<le> stores m"
    using d(3,4,6) assms(1) div_le_mono [of c "sh_count m" 2] by (auto simp: shared_ok_def)
  have "c = d" if "(word_of_nat c :: 64 word) = word_of_nat d"
    using that d(3,4) assms(4) by (simp add: word_of_nat_eq_iff take_bit_nat_eq_self)
  moreover have "even c" if "(word_of_nat c :: 64 word) AND 1 = 0"
    using that by (simp add: and_1_eq_0_iff)
  ultimately show ?thesis using d n by (auto simp: R_after)
next
  case (R_done n c result)
  then show ?thesis by (simp add: stores_def)
qed

lemma Store_step_count: "sh_count m \<le> sh_count (fst (Store_step v m w))"
  by (induction v m w rule: Store_step.induct) auto

lemma sl_step_count: "sl_step s s' \<Longrightarrow> sh_count (sl_shared s) \<le> sh_count (sl_shared s')"
proof (induction rule: sl_step.induct)
  case (store v s m w)
  then show ?case using Store_step_count [of "sl_shared s" v "sl_writer s"] by simp
qed simp

lemma sl_step_inv:
  assumes "sl_step s s'" and "sl_inv k s" and "sh_count (sl_shared s') < 2 ^ 64"
  shows "sl_inv k s'"
  using assms
proof (induction rule: sl_step.induct)
  case (store v s m w)
  then show ?case
    using Store_step_ok [OF _ _ store(1,2), of k] Store_step_reader [OF _ _ store(1,2), of k "sl_reader s"]
    by (simp add: sl_inv_def)
next
  case (load s)
  then show ?case using Load_step_ok [of k "sl_shared s" "sl_writer s"] by (simp add: sl_inv_def)
qed

lemma sl_reach_inv: "sl_reach v0 s \<Longrightarrow> sh_count (sl_shared s) < 2 ^ 64 \<Longrightarrow> sl_inv (length v0) s"
proof (induction rule: sl_reach.induct)
  case (step s s')
  then show ?case using sl_step_count [OF step.hyps(2)] sl_step_inv [OF step.hyps(2)] by simp
qed (rule sl_inv_init)

section \<open>Progress\<close>

lemma Load_copies:
  "i \<le> length (sh_value m) - length result \<Longrightarrow> length result \<le> length (sh_value m) \<Longrightarrow>
   \<exists>rest. (Load_step m ^^ i) (R_copy n c before result) = R_copy n c before (result @ rest) \<and> length rest = i \<and>
     (result = take (length result) (sh_value m) \<longrightarrow> result @ rest = take (length result + i) (sh_value m))"
proof (induction i)
  case (Suc i)
  then obtain rest where r: "(Load_step m ^^ i) (R_copy n c before result) = R_copy n c before (result @ rest)"
    "length rest = i" "result = take (length result) (sh_value m) \<longrightarrow> result @ rest = take (length result + i) (sh_value m)"
    by auto
  let ?x = "sh_value m ! (length result + i)"
  have "(Load_step m ^^ Suc i) (R_copy n c before result) = R_copy n c before (result @ rest @ [?x])"
    using Suc.prems by (simp add: r(1,2))
  moreover have "take (length result + Suc i) (sh_value m) = take (length result + i) (sh_value m) @ [?x]"
    using Suc.prems by (simp add: take_Suc_conv_app_nth)
  ultimately show ?case
    using r(2,3) by (intro exI [of _ "rest @ [?x]"]) auto
qed simp

lemma funpow_add_apply: "((f :: 'a \<Rightarrow> 'a) ^^ (i + j)) x = (f ^^ i) ((f ^^ j) x)"
  by (simp add: funpow_add)

lemma funpow_one: "((f :: 'a \<Rightarrow> 'a) ^^ 1) x = f x"
  by simp

lemma Load_from_start:
  assumes "shared_ok k m" and "even (sh_count m)"
  shows "(Load_step m ^^ (k + 3)) (R_start n) = R_done n (sh_count m) (sh_value m)"
proof -
  have k: "length (sh_value m) = k" and seq: "sh_sequence m = word_of_nat (sh_count m)"
    using assms(1) by (simp_all add: shared_ok_def)
  have "(Load_step m ^^ k) (R_copy n (sh_count m) (sh_sequence m) []) = R_copy n (sh_count m) (sh_sequence m) (sh_value m)"
    using Load_copies [of k m "[]" n "sh_count m" "sh_sequence m"] k by auto
  moreover have "sh_sequence m AND 1 = 0"
    using assms(2) by (simp add: seq and_1_eq_0_iff)
  moreover have "k + 3 = 2 + (k + 1)" by simp
  then have "(Load_step m ^^ (k + 3)) (R_start n) = (Load_step m ^^ 2) ((Load_step m ^^ k) (Load_step m (R_start n)))"
    by (simp only: funpow_add_apply funpow_one)
  ultimately show ?thesis
    by (simp add: numeral_2_eq_2 k)
qed

lemma Load_progress:
  assumes "shared_ok k m" and "even (sh_count m)" and "reader_ok m r"
  shows "\<exists>j \<le> 2 * k + 6. \<exists>n c result. (Load_step m ^^ j) r = R_done n c result"
proof -
  have k: "length (sh_value m) = k" using assms(1) by (simp add: shared_ok_def)
  note start = Load_from_start [OF assms(1,2)]
  have after: "\<exists>j \<le> k + 4. \<exists>n' c' res. (Load_step m ^^ j) (R_after n c b result a) = R_done n' c' res" for n c b result a
  proof (cases "b \<noteq> a \<or> b AND 1 \<noteq> 0")
    case True
    then have "(Load_step m ^^ ((k + 3) + 1)) (R_after n c b result a) = R_done n (sh_count m) (sh_value m)"
      using start [of n] by (simp only: funpow_add_apply funpow_one Load_step.simps if_True)
    then show ?thesis by (intro exI [of _ "(k + 3) + 1"]) (simp add: add.commute)
  next
    case False
    then show ?thesis by (intro exI [of _ 1]) simp
  qed
  show ?thesis
  proof (cases r)
    case (R_start n)
    then show ?thesis using start [of n] by (intro exI [of _ "k + 3"]) auto
  next
    case (R_copy n c b result)
    let ?i = "k - length result"
    have le: "length result \<le> k" using assms(3) R_copy k by (simp add: snapshot_def)
    have "?i \<le> length (sh_value m) - length result" "length result \<le> length (sh_value m)"
      using le k by simp_all
    from Load_copies [OF this, of n c b] obtain rest where
      "(Load_step m ^^ ?i) r = R_copy n c b (result @ rest)" "length rest = ?i"
      unfolding R_copy by blast
    then have full: "(Load_step m ^^ (1 + ?i)) r = R_after n c b (result @ rest) (sh_sequence m)"
      unfolding funpow_add_apply using le by (simp add: k)
    obtain j n' c' res where j: "j \<le> k + 4" "(Load_step m ^^ j) (R_after n c b (result @ rest) (sh_sequence m)) = R_done n' c' res"
      using after by blast
    then have "(Load_step m ^^ (j + (1 + ?i))) r = R_done n' c' res"
      unfolding funpow_add_apply full [unfolded funpow_add_apply] by simp
    then show ?thesis using j(1) by (intro exI [of _ "j + (1 + ?i)"]) auto
  next
    case (R_after n c b result a)
    obtain j where "j \<le> k + 4" "\<exists>n' c' res. (Load_step m ^^ j) r = R_done n' c' res"
      using after [of n c b result a] R_after by blast
    then show ?thesis by (intro exI [of _ j]) auto
  next
    case (R_done n c result)
    then show ?thesis by (intro exI [of _ 0]) simp
  qed
qed

lemma Store_copies:
  assumes "length v = length (sh_value m)" and "i \<le> length v"
  shows "((\<lambda>(m, w). Store_step u m w) ^^ i) (m, W_copy seq v 0) =
    (m\<lparr>sh_value := take i v @ drop i (sh_value m)\<rparr>, W_copy seq v i)"
  using assms(2)
proof (induction i)
  case (Suc i)
  then have "(take i v @ drop i (sh_value m))[i := v ! i] = take (Suc i) v @ drop (Suc i) (sh_value m)"
    using assms(1) by (simp add: list_update_append take_Suc_conv_app_nth Cons_nth_drop_Suc [symmetric])
  then show ?case using Suc assms(1) by simp
qed simp

section \<open>A concrete interleaving\<close>

text \<open>\<open>Some v\<close> is a step of the writer, which stores \<open>v\<close> when it is idle; \<open>None\<close> is a step of the reader.\<close>

fun sl_run :: "'w list option list \<Rightarrow> 'w SL_State \<Rightarrow> 'w SL_State" where
  "sl_run [] s = s"
| "sl_run (Some v # acts) s =
     (case Store_step v (sl_shared s) (sl_writer s) of (m, w) \<Rightarrow> sl_run acts (s\<lparr>sl_shared := m, sl_writer := w\<rparr>))"
| "sl_run (None # acts) s = sl_run acts (s\<lparr>sl_reader := Load_step (sl_shared s) (sl_reader s)\<rparr>)"

lemma Store_step_length: "length (sh_value (fst (Store_step v m w))) = length (sh_value m)"
  by (induction v m w rule: Store_step.induct) auto

lemma sl_run_reach:
  "sl_reach v0 s \<Longrightarrow> length (sh_value (sl_shared s)) = k \<Longrightarrow> list_all (\<lambda>a. a = None \<or> length (the a) = k) acts \<Longrightarrow>
   sl_reach v0 (sl_run acts s)"
proof (induction acts s rule: sl_run.induct)
  case (2 v acts s)
  obtain m w where mw: "Store_step v (sl_shared s) (sl_writer s) = (m, w)"
    by (cases "Store_step v (sl_shared s) (sl_writer s)")
  have "length (sh_value m) = k"
    using Store_step_length [of v "sl_shared s" "sl_writer s"] mw 2 by simp
  moreover have "sl_reach v0 (s\<lparr>sl_shared := m, sl_writer := w\<rparr>)"
    using 2 mw by (intro sl_reach.step [OF 2(2)] sl_step.store) auto
  ultimately show ?case
    using 2(1) [OF mw [symmetric]] 2(4) mw by simp
next
  case (3 acts s)
  then show ?case using sl_reach.step [OF 3(2) sl_step.load] by simp
qed simp

text \<open>The reader copies one word, the writer stores a whole value, the reader goes on, notices and starts over.\<close>

definition sample_interleaving :: "nat SL_State" where
  "sample_interleaving =
     sl_run ([None, None] @ replicate 5 (Some [1, 2]) @ replicate 8 None) (sl_init [0, 0])"

lemma sample_interleaving_reach: "sl_reach [0, 0] sample_interleaving"
  unfolding sample_interleaving_def
  by (rule sl_run_reach [OF sl_reach.start, of _ 2]) (simp_all add: sl_init_def list_all_iff)

lemma sample_interleaving_eval:
  "sample_interleaving =
     \<lparr>sl_shared = \<lparr>sh_sequence = 2, sh_value = [1, 2], sh_hist = [[0, 0], [1, 2]], sh_count = 2\<rparr>,
      sl_writer = W_idle, sl_reader = R_done 0 2 [1, 2]\<rparr>"
  by (simp add: sample_interleaving_def sl_init_def numeral_nat)

section \<open>Properties\<close>

text \<open>C5: a reader never sees a torn value. Whatever the interleaving with the writer, a call of \<open>Load\<close> that
  returns has a value that was stored as a whole (or is the initial one), and one that was current
  at or after the moment the call began. The bound on the number of stores is the width of the
  sequence number.\<close>

theorem seqlock_no_torn_read:
  assumes "sl_reach v0 s" and "sh_count (sl_shared s) < 2 ^ 64" and "sl_reader s = R_done n c result"
  shows "\<exists>k. n \<le> k \<and> k < length (sh_hist (sl_shared s)) \<and> result = sh_hist (sl_shared s) ! k"
  using sl_reach_inv [OF assms(1,2)] assms(3) by (auto simp: sl_inv_def)

theorem seqlock_no_torn_read_witness:
  "\<exists>k. k < length (sh_hist (sl_shared sample_interleaving)) \<and> [1, 2] = sh_hist (sl_shared sample_interleaving) ! k"
proof -
  have "sh_count (sl_shared sample_interleaving) < 2 ^ 64" and "sl_reader sample_interleaving = R_done 0 2 [1, 2]"
    by (simp_all add: sample_interleaving_eval)
  from seqlock_no_torn_read [OF sample_interleaving_reach this] show ?thesis by blast
qed

text \<open>C31: \<open>Load\<close> returns once the writer is between two stores. From any reachable state with the writer idle,
  a reader that is scheduled alone finishes after at most \<open>2 * k + 6\<close> accesses, where \<open>k\<close> is the size of
  the value in words.\<close>

theorem seqlock_load_returns:
  assumes "sl_reach v0 s" and "sh_count (sl_shared s) < 2 ^ 64" and "sl_writer s = W_idle"
  shows "\<exists>j \<le> 2 * length v0 + 6. \<exists>n c result. (Load_step (sl_shared s) ^^ j) (sl_reader s) = R_done n c result"
proof -
  have "sl_inv (length v0) s" by (rule sl_reach_inv [OF assms(1,2)])
  then show ?thesis
    using assms(3) by (intro Load_progress) (auto simp: sl_inv_def)
qed

theorem seqlock_load_returns_witness:
  "\<exists>j \<le> 10. \<exists>n c result. (Load_step (sl_shared sample_interleaving) ^^ j) (sl_reader sample_interleaving) = R_done n c result"
  using seqlock_load_returns [OF sample_interleaving_reach] by (simp add: sample_interleaving_eval)

text \<open>C32: \<open>Store\<close> is wait-free and does what the object run alone does: after \<open>k + 3\<close> accesses of its own, no
  matter what readers do, it has returned, and value and sequence number are those of \<open>Store\<close>.\<close>

theorem seqlock_store_completes:
  assumes "length v = length (sh_value m)"
  shows "\<exists>m'. ((\<lambda>(m, w). Store_step v m w) ^^ (length v + 3)) (m, W_idle) = (m', W_idle) \<and>
    \<lparr>sl_sequence = sh_sequence m', sl_value = sh_value m'\<rparr> =
      Store v \<lparr>sl_sequence = sh_sequence m, sl_value = sh_value m\<rparr>"
proof -
  let ?f = "\<lambda>(m, w). Store_step v m w" and ?m = "m\<lparr>sh_sequence := sh_sequence m + 1, sh_count := sh_count m + 1\<rparr>"
  have "length v + 3 = 1 + (length v + 2)" by simp
  then have "(?f ^^ (length v + 3)) (m, W_idle) = ?f ((?f ^^ length v) ((?f ^^ 2) (m, W_idle)))"
    by (simp only: funpow_add_apply funpow_one)
  also have "(?f ^^ 2) (m, W_idle) = (?m, W_copy (sh_sequence m) v 0)"
    by (simp add: numeral_2_eq_2)
  also have "(?f ^^ length v) \<dots> = (?m\<lparr>sh_value := v\<rparr>, W_copy (sh_sequence m) v (length v))"
    using Store_copies [of v ?m "length v" v "sh_sequence m"] assms by simp
  finally show ?thesis by (simp add: Store_def)
qed

theorem seqlock_store_completes_witness:
  "\<exists>m'. ((\<lambda>(m, w). Store_step [1, 2] m w) ^^ 5) (sl_shared (sl_init [0, 0 :: nat]), W_idle) = (m', W_idle) \<and>
     sh_sequence m' = 2 \<and> sh_value m' = [1, 2]"
  using seqlock_store_completes [of "[1, 2]" "sl_shared (sl_init [0, 0 :: nat])"]
  by (auto simp: sl_init_def Store_def)

end
