(* ===== verification/Spec2Isabelle.thy ===== *)
theory Spec2Isabelle
  imports Client_Sessions Publisher Seqlock_Threads
begin

text \<open>
  A verification library for the toy exchange under \<open>src/\<close>.

  \<^bold>\<open>The program.\<close> Clients send fixed-size binary orders and cancels over TCP. \<open>Gateway\<close> (\<open>common/net/gateway.cpp\<close>)
  frames and decodes them (\<open>common/net/wire.hpp\<close>) and pushes commands to a queue. The matching thread
  (\<open>common/workers/matching_engine_thread.cpp\<close>) pops them, gives them to a \<open>MatchingEngineRouter\<close> with one
  \<open>MatchingEngine\<close> per instrument (\<open>common/engine/\<close>), and pushes wire-encoded events to the market data queue
  and trades to the trade queue. The inventory thread (\<open>common/workers/inventory_thread.cpp\<close>) settles trades in
  the \<open>UserRegistry\<close>, reading mid prices through a \<open>Seqlock\<close> while the engines run. \<open>MarketDataPublisher\<close>
  (\<open>common/net/market_data_publisher.cpp\<close>) sends the events as UDP datagrams. \<open>main\<close> (\<open>exchange/main.cpp\<close>)
  builds all this and shuts it down in order. Under \<open>tools/\<close> are a Python codec, an order generator and a
  listener that rebuilds the books from the datagrams.

  \<^bold>\<open>Theories and what they model.\<close>
  \<^item> Prelude, Bytes: result values for exceptions, \<open>std::int64_t\<close> as a 64-bit word with its signed reading and
    wrap-around, little-endian fields.
  \<^item> Core_Types: \<open>StrongType\<close>, prices, volumes, ids, \<open>Ticker\<close>, \<open>INSTRUMENTS\<close>, \<open>Trade\<close>, \<open>OrderAdd\<close>,
    \<open>OrderCancel\<close>, \<open>InboundCommand\<close>, \<open>Instrument\<close>.
  \<^item> Flat_Map: \<open>std::flat_map\<close> as a sorted list of keys with values, its laws as a locale for both price orders.
  \<^item> Seqlock, Seqlock_Threads: \<open>Store\<close> and \<open>Load\<close> run alone, and interleaved one memory access per step.
  \<^item> Matching_Engine: every operation of \<open>MatchingEngine\<close>, the loops of \<open>Match\<close> as recursive functions.
    Engine_Spec: the price-time reference, one pass over the resting orders of a side, and its refinement.
    Engine_Invariants: sortedness, no crossed book, the mid price, the order index. Engine_Properties: the claims.
  \<^item> Router: \<open>TickerIndex\<close>, \<open>OnOrderAdd\<close>, \<open>OnOrderCancel\<close> and \<open>MidPrice\<close> of \<open>MatchingEngineRouter\<close>.
  \<^item> Wire: the packed structs as byte layouts, \<open>EncodeTicker\<close> to \<open>EncodeTradeEvent\<close>, \<open>DecodeTicker\<close> to
    \<open>DecodeInboundMessage\<close>. Client_Tools: the codec of \<open>tools/wire.py\<close> and the listener's \<open>OrderBook\<close>.
    Wire_Properties: the two codecs agree.
  \<^item> Gateway: \<open>Run\<close>, \<open>AcceptConnections\<close>, \<open>ReadFrom\<close>, \<open>Dispatch\<close>, \<open>Stop\<close>, the closing operations and the
    destructor, against the results of the system calls. Gateway_Properties: framing, descriptors, isolation.
  \<^item> Binary64: \<open>double\<close> with rounding to nearest even. User, User_Properties: \<open>ApplyFill\<close>, \<open>RefreshUnrealizedPnl\<close>
    and the readers of \<open>common/engine/user.hpp\<close>, over double or exact arithmetic. Registry,
    Registry_Properties: \<open>UserRegistry\<close>, settlement, and the text \<open>WriteSnapshot\<close> produces.
  \<^item> Queues: the three \<open>spsc_queue\<close>s as parameters with their documented laws. Exchange: the gateway, matching,
    inventory, market data and main threads as step functions on one state, all interleavings by an inductive
    relation. Exchange_Invariants, Exchange_Progress, Exchange_Properties: the invariants and the claims.
  \<^item> Publisher: construction and destruction of \<open>MarketDataPublisher\<close>, and \<open>main_start\<close>, the beginning of \<open>main\<close>.
  \<^item> Listener: the listener's book against the engines. Client_Programs: the loops of
    \<open>tools/dummy_order_generator.py\<close> and \<open>tools/orderbook_listener.py\<close>. Client_Sessions: the generator never raises and
    its session is orderly; datagrams decode to the events of the feed.

  Objects are records with the members of the classes; an operation takes and returns the object. Raised
  exceptions are \<open>Inl\<close> values, an exception that leaves a thread ends the process. System calls and third-party
  code appear as arguments: the constructor of \<open>boost::static_string\<close> (locale \<open>static_string\<close>), the
  \<open>spsc_queue\<close> operations (locale \<open>spsc_queue\<close>), the iteration order of the hash map (locale \<open>map_items\<close>),
  each with an interpretation on a concrete instance.

  \<^bold>\<open>What is shown.\<close> For one engine: it refines the price-time reference, conserves volume, misses no match, never
  crosses, cancels exactly the owner's order. For accounts: exact average-cost profit, the rounding error of
  double arithmetic, zero-sum settlement. For the wire: round trips between C++ and Python in both directions,
  framing independent of how reads cut the stream. For the threads: no torn read of a mid price; every
  interleaving does a prefix of what the sequential exchange does; the shutdown can always complete, loses
  nothing when each stage looks at its queue once more after the stage before has stopped, and can lose an order
  otherwise. In this theory: what the process handles stays well-formed from the start of \<open>main\<close> on, and the way
  of an order from the generator to the listener.

  \<^bold>\<open>Bounds.\<close> There is no fuel: \<open>Match\<close>, \<open>frames\<close> and \<open>drain\<close> have termination proofs, and loops that run until they
  are interrupted are step functions or run over the list of what the environment answers. A torn read is
  excluded for fewer than 2^63 stores, after which the sequence number repeats. The generator is followed for
  fewer than 2^63 rounds, when its ids leave 64 bits. Claims about doubles state the range they need.

  \<^bold>\<open>Not modelled.\<close> Logging (\<open>InitLogging\<close> and the \<open>spdlog\<close> calls) has no effect on what is computed. What the Python
  tools print, their argument parsing and socket set-up are terminal and system interaction. Memory arenas only
  place the containers. Concurrent accesses take effect in one order; weaker hardware orders are outside the
  model. \<open>std::abs\<close> of the smallest integer, undefined in C++, is taken to wrap, and compilers that contract a
  multiplication and an addition into one rounding are not considered. \<open>OrderQueue\<close> and the \<open>std::hash\<close> of a
  strong type are not used by the program.
\<close>

section \<open>Datagrams have the agreed size\<close>

lemma length_datagram:
  assumes "encoded msg item" and "ticker_ok (item_ticker item)"
  shows "length (bytes_WireMarketDataMessage msg) = MARKET_DATA_MESSAGE_SIZE"
proof -
  obtain pad where pad: "length pad = sizeof_WireTradeEvent - sizeof_WireOrderAdd" and msg: "msg = encode_item pad item"
    using assms(1) by (auto simp: encoded_def pad_ok_def)
  have "length (EncodeTicker (item_ticker item)) = 16"
    using assms(2) length_EncodeTicker [of "item_ticker item"] by (simp add: ticker_ok_def wire_sizes)
  then show ?thesis
    using pad unfolding msg
    by (cases item) (simp_all add: encode_item.simps feed_defs EncodeOrderAddEvent_def EncodeOrderCancelEvent_def EncodeTradeEvent_def
        bytes_WireOrderAddEvent_def bytes_WireOrderCancelEvent_def bytes_WireTradeEvent_def wire_sizes)
qed

text \<open>The states the process reaches from the start of \<open>main\<close>.\<close>

lemma main_start_cases:
  assumes "main_start mk su batches knl fd inet_pton k (e_queues E) = (s0, k')" and "x_steps E s0 s"
  obtains e where "s = (x_init (e_queues E) [] None)\<lparr>x_terminated := Some e\<rparr>"
  | result g knl' cmds where "Run mk su batches (new_Gateway GATEWAY_PORT) knl = (result, g, knl', cmds)" and "x_reach E cmds result s"
proof -
  have stuck: "t = s1" if "x_steps E s1 t" "x_terminated s1 \<noteq> None" for s1 t
    using that by (induction rule: x_steps.induct) (auto elim: x_step.cases)
  obtain p k1 where p: "new_MarketDataPublisher True fd inet_pton MARKET_DATA_MULTICAST_ADDRESS MARKET_DATA_PORT k = (p, k1)"
    by fastforce
  show thesis
  proof (cases p)
    case (Inl e)
    then have "s0 = (x_init (e_queues E) [] None)\<lparr>x_terminated := Some e\<rparr>" using assms(1) p by (simp add: main_start_def)
    then show thesis using stuck [OF assms(2)] that(1) by simp
  next
    case (Inr publisher)
    obtain result g knl' cmds where r: "Run mk su batches (new_Gateway GATEWAY_PORT) knl = (result, g, knl', cmds)"
      by (rule prod_cases4)
    then have "s0 = x_init (e_queues E) cmds result" using assms(1) p Inr by (simp add: main_start_def)
    then show thesis using that(2) [OF r] assms(2) by (simp add: x_reach_def)
  qed
qed

lemma decode_frames_length: "decode_frames mk fs = (None, cmds) \<Longrightarrow> length cmds = length fs"
  by (induction fs arbitrary: cmds) (auto split: sum.splits prod.splits)

section \<open>Properties\<close>

text \<open>C4: an order's way through the whole system. The order generator, for any answers of the random module and
  for fewer than 2^63 rounds, never raises. Let its byte stream reach one gateway connection in pieces of any
  size, let the threads of the exchange interleave in any way up to a quiet shutdown, and let the listener
  receive every datagram, with timeouts in between. Then the gateway dispatches exactly one command per
  round, all are executed, the listener raises no exception, and the book it has rebuilt consists of
  exactly the orders that rest in the engines.\<close>

theorem session_end_to_end:
  assumes "static_string mk" and "exchange_queues (e_queues E) fi fm ft"
    and "list_all round_ok rds" and "int (length rds) < 2 ^ 63"
    and "reads_ok 0 rs" and "set rs \<inter> {Eof, Read_error} = {}"
    and "data rs = concat (projr (generator_main rds new_Generator))"
    and "drain mk new_Connection rs [] = (end, conn, rest, cmds)"
    and "x_reach E cmds None s" and "x_main s = Main_done"
    and "h_quiet_matching (x_history s)" and "h_quiet_inventory (x_history s)" and "h_quiet_marketData (x_history s)"
    and "arrived received = map (\<lambda>(msg, sent). bytes_WireMarketDataMessage msg) (x_sent s)"
  shows "\<not> isl (generator_main rds new_Generator) \<and> end = Keep \<and> length cmds = length rds \<and> x_router s = book_after cmds \<and>
    (\<exists>book. listener_main received [] = Inr book \<and>
       (\<forall>i x. map_of book i = Some x \<longleftrightarrow> (i, x) \<in> set (open_orders (x_router s))))"
proof -
  have first: "gn_next_order_id new_Generator + int (length rds) \<le> 2 ^ 63"
    using assms(4) by (simp add: new_Generator_def)
  obtain messages cmds' where g: "generator_main rds new_Generator = Inr messages"
    "list_all (\<lambda>m. length m = sizeof_InboundWireMessage) messages" "length messages = length rds"
    and d: "decode_frames mk messages = (None, cmds')"
    and o: "orderly [] cmds'" and t: "list_all (\<lambda>c. cmd_ticker c \<in> set INSTRUMENTS) cmds'"
    using generator_session [OF assms(1) generator_ok_new first assms(3)] by blast
  have frames: "frames (data rs) = messages" using assms(7) g frames_concat by simp
  have "reads_ok (cn_filled new_Connection) rs" using assms(5) by simp
  note drained = drain_frames [OF new_Connection_ok(1) this assms(6,8), unfolded new_Connection_ok append_Nil frames d fst_conv snd_conv option.case]
  have cmds: "cmds = cmds'" and e: "end = Keep" using drained by simp_all
  note drains = exchange_queues.drains [OF assms(2,9) HOL.refl assms(10-13)]
  have "list_all2 encoded (map fst (x_sent s)) (feed_of cmds)" by (rule drains(2))
  moreover have "\<forall>item \<in> set (feed_of cmds). feedable (item_ticker item)"
    using feed_tickers [of _ cmds] t listed_feedable by (fastforce simp: cmds list_all_iff)
  moreover have "arrived received = map bytes_WireMarketDataMessage (map fst (x_sent s))"
    using assms(14) by (simp add: case_prod_beta o_def)
  ultimately have "listener_main received [] = Inr (listener_after (feed_of cmds))"
    unfolding listener_after_def by (rule listener_main_events)
  moreover have "length cmds = length rds"
    using decode_frames_length [OF d] g(3) cmds by simp
  ultimately show ?thesis
    using g(1) e drains(1) listener_mirror [OF o] by (simp add: cmds)
qed

definition sample_round :: Round where
  "sample_round = \<lparr>rd_cancel = False, rd_open = 0, rd_ticker = 0, rd_side = 0, rd_uniform = Fin False 0, rd_volume = 5\<rparr>"

definition session_order :: OrderAdd where
  "session_order = MakeOrder 1 0 Buy 190000000 5"

lemma sample_round_message:
  obtains bs where "generator_main [sample_round] new_Generator = Inr [bs]" and "length bs = sizeof_InboundWireMessage"
    and "DecodeInboundMessage checked_string (InboundWireMessage_at bs) = Inr (CmdAdd session_order)"
proof -
  obtain bs where bs: "encode_order_add 1 0 ''AAPL'' 0 190000000 5 = Inr bs"
    by (simp add: encode_order_add_eq in_i64_def wire_sizes char_bytes_def byte_of_def is_ascii_def)
  have "py_round (dmul (dadd (Fin False 190) (Fin False 0)) (rounded (of_int wire_PRICE_MULTIPLIER))) = Inr 190000000"
    using rounded_int [of 190] rounded_int [of 1000000] rounded_int [of 190000000] half_even_int [of 190000000]
    by (simp add: wire_PRICE_MULTIPLIER_def rounded_def)
  then have "generator_main [sample_round] new_Generator = Inr [bs]"
    using bs by (simp add: generator_round_def new_Generator_def random_order_add_def sample_round_def py_choice_def
        wire_INSTRUMENTS_def subscript_def REFERENCE_PRICES_def SIDE_BUY_def USER_ID_def Let_def)
  moreover obtain order where len: "length bs = sizeof_InboundWireMessage"
    and decoded: "DecodeInboundMessage checked_string (InboundWireMessage_at bs) = Inr (CmdAdd order)"
    and fields: "num (a_orderId order) = num (OrderId 1)" "num (a_userId order) = num (UserId 0)" "a_ticker order = ''AAPL''"
      "a_side order = Buy" "num (a_price order) = num (Price 190000000)" "num (a_volume order) = num (Volume 5)"
    using order_message_decodes [OF checked.static_string_axioms bs] by (auto simp: NUL_def num_StrongType wrap64_def zero_StrongType_def)
  have "order = session_order"
    using fields by (cases order) (simp add: session_order_def MakeOrder_def)
  ultimately show thesis using that len decoded by simp
qed

lemma session_order_rests:
  "Router_OnOrderAdd session_order onTrade new_Router [] = (book_after [CmdAdd session_order], [])"
  "(1, \<lparr>oo_ticker = ''AAPL'', oo_side = ''Buy'', oo_price = 190000000, oo_volume = 5\<rparr>) \<in> set (open_orders (book_after [CmdAdd session_order]))"
proof -
  have aapl: "''AAPL'' \<in> set INSTRUMENTS" by (simp add: INSTRUMENTS_def)
  have add: "AddOrder session_order new_MatchingEngine = (e, ts) \<Longrightarrow> ts = [] \<and>
      sb_bids (abs_engine e) = [(Price 190000000, \<lparr>ro_orderId = OrderId 1, ro_userId = UserId 0, ro_volume = Volume 5\<rparr>)]" for e ts
    by (auto simp: session_order_def engine_eval i64_eval abs_engine_def)
  have cmd: "cmd_ticker (CmdAdd session_order) = ''AAPL''" by (simp add: session_order_def MakeOrder_def)
  have book: "book_after [CmdAdd session_order] = fst (router_step (CmdAdd session_order) new_Router)"
    using sequential_snoc(1) [of "[]"] by simp
  have "snd (router_step (CmdAdd session_order) new_Router) = []"
    unfolding router_step_cases [OF router_ok_new] cmd engine_at_new [OF aapl]
    using add by (simp add: aapl case_prod_beta prod_eq_iff)
  then show "Router_OnOrderAdd session_order onTrade new_Router [] = (book_after [CmdAdd session_order], [])"
    unfolding Router_OnOrderAdd_handler [of session_order onTrade] book by (simp add: case_prod_beta del: router_step.simps)
  have "resting ''AAPL'' Buy (book_after [CmdAdd session_order]) =
      [(Price 190000000, \<lparr>ro_orderId = OrderId 1, ro_userId = UserId 0, ro_volume = Volume 5\<rparr>)]"
    unfolding book resting_step [OF router_ok_new aapl] cmd engine_at_new [OF aapl]
    using add by (simp add: own_def prod_eq_iff)
  then have "(1, \<lparr>oo_ticker = ''AAPL'', oo_side = ''Buy'', oo_price = 190000000, oo_volume = 5\<rparr>) \<in>
      set (open_entries ''AAPL'' Buy (resting ''AAPL'' Buy (book_after [CmdAdd session_order])))"
    by (simp add: open_entries_def entry_id_def open_order_def i64_eval)
  then show "(1, \<lparr>oo_ticker = ''AAPL'', oo_side = ''Buy'', oo_price = 190000000, oo_volume = 5\<rparr>) \<in>
      set (open_orders (book_after [CmdAdd session_order]))"
    unfolding set_open_orders using aapl by blast
qed

theorem session_end_to_end_witness:
  "\<exists>bs conn s book. generator_main [sample_round] new_Generator = Inr [bs] \<and>
     drain checked_string new_Connection [Data (take 20 bs), Data (drop 20 bs)] [] = (Keep, conn, [], [CmdAdd session_order]) \<and>
     x_reach sample_env [CmdAdd session_order] None s \<and> x_main s = Main_done \<and>
     listener_main (None # map (\<lambda>(msg, sent). Some (bytes_WireMarketDataMessage msg)) (x_sent s)) [] = Inr book \<and>
     map_of book 1 = Some \<lparr>oo_ticker = ''AAPL'', oo_side = ''Buy'', oo_price = 190000000, oo_volume = 5\<rparr>"
proof -
  obtain bs where bs: "generator_main [sample_round] new_Generator = Inr [bs]" "length bs = sizeof_InboundWireMessage"
    "DecodeInboundMessage checked_string (InboundWireMessage_at bs) = Inr (CmdAdd session_order)"
    by (rule sample_round_message)
  let ?rs = "[Data (take 20 bs), Data (drop 20 bs)]"
  have reads: "reads_ok 0 ?rs" "set ?rs \<inter> {Eof, Read_error} = {}" "data ?rs = concat (projr (generator_main [sample_round] new_Generator))"
    using bs(1,2) by (auto simp: wire_sizes)
  have fr: "frames (data ?rs) = [bs]" using bs(1,2) reads(3) frames_full(1) [OF bs(2), of "[]"] by (simp add: wire_sizes)
  obtain e conn rest cmds where dr: "drain checked_string new_Connection ?rs [] = (e, conn, rest, cmds)"
    by (rule prod_cases4)
  have "reads_ok (cn_filled new_Connection) ?rs" unfolding new_Connection_ok by (rule reads(1))
  note drained = drain_frames [OF new_Connection_ok(1) this reads(2) dr, unfolded new_Connection_ok append_Nil fr]
  have cmds: "e = Keep" "rest = []" "cmds = [CmdAdd session_order]" using drained bs(3) by simp_all
  define s where "s = perform sample_env quiet_actions (x_init list_queues [CmdAdd session_order] None)"
  have s: "x_main s = Main_done" "h_quiet_matching (x_history s)" "h_quiet_inventory (x_history s)" "h_quiet_marketData (x_history s)"
    by (simp_all add: s_def exchange_eval quiet_actions_def session_order_rests(1))
  have reach: "x_reach sample_env [CmdAdd session_order] None s" unfolding s_def by (rule x_reach_sample)
  let ?received = "None # map (\<lambda>(msg, sent). Some (bytes_WireMarketDataMessage msg)) (x_sent s)"
  have "arrived (map (\<lambda>(msg, sent). Some (bytes_WireMarketDataMessage msg)) l) = map (\<lambda>(msg, sent). bytes_WireMarketDataMessage msg) l" for l :: "(WireMarketDataMessage \<times> bool) list"
    by (induction l) auto
  then have received: "arrived ?received = map (\<lambda>(msg, sent). bytes_WireMarketDataMessage msg) (x_sent s)" by simp
  have "list_all round_ok [sample_round]" "int (length [sample_round]) < 2 ^ 63"
    by (simp_all add: round_ok_def sample_round_def)
  from session_end_to_end [OF checked.static_string_axioms sample_queues this reads dr [unfolded cmds] reach s received]
  obtain book where "listener_main ?received [] = Inr book" and "x_router s = book_after [CmdAdd session_order]"
    and "\<forall>i x. map_of book i = Some x \<longleftrightarrow> (i, x) \<in> set (open_orders (x_router s))" by blast
  then show ?thesis
    using bs(1) dr reach s(1) session_order_rests(2) unfolding cmds by metis
qed

text \<open>C18: data of the running exchange stays well-formed. From the start of \<open>main\<close>, whatever bytes clients send
  and however the threads interleave: every command taken from the gateway and every trade settled carries
  a ticker of at most 15 characters without a NUL, so that it fits every field it is copied to, and every
  datagram handed to the system has exactly the 66 bytes the listeners expect.\<close>

theorem exchange_well_typed:
  assumes "static_string mk" and "exchange_queues (e_queues E) fi fm ft"
    and "main_start mk su batches knl fd inet_pton k (e_queues E) = (s0, k')" and "x_steps E s0 s"
  shows "list_all (\<lambda>c. ticker_ok (cmd_ticker c)) (h_popped (x_history s)) \<and>
    list_all (\<lambda>(mid, t). ticker_ok (t_ticker t)) (h_settled (x_history s)) \<and>
    list_all (\<lambda>(msg, sent). length (bytes_WireMarketDataMessage msg) = MARKET_DATA_MESSAGE_SIZE) (x_sent s)"
proof (rule main_start_cases [OF assms(3,4)])
  fix e
  assume "s = (x_init (e_queues E) [] None)\<lparr>x_terminated := Some e\<rparr>"
  then show ?thesis by (simp add: x_init_def)
next
  fix result g knl' cmds
  assume run: "Run mk su batches (new_Gateway GATEWAY_PORT) knl = (result, g, knl', cmds)" and reach: "x_reach E cmds result s"
  let ?h = "x_history s"
  note seq = exchange_queues.refines_sequential [OF assms(2) reach HOL.refl]
  have ok: "ticker_ok (cmd_ticker c)" if "c \<in> set (h_popped ?h)" for c
    using static_string.Run_typed [OF assms(1) run] set_mono_prefix [OF seq(1)] that by (auto simp: list_all_iff typed_def)
  have "ticker_ok (t_ticker t)" if "(mid, t) \<in> set (h_settled ?h)" for mid t
  proof -
    have "t \<in> set (trades_of (h_popped ?h))" using that set_mono_prefix [OF seq(3)] by force
    then show ?thesis using trades_tickers ok by fastforce
  qed
  moreover obtain items where items: "prefix items (feed_of (h_popped ?h))" "list_all2 encoded (map fst (x_sent s)) items"
    using seq(2) by blast
  have "length (bytes_WireMarketDataMessage msg) = MARKET_DATA_MESSAGE_SIZE" if sent: "(msg, sent) \<in> set (x_sent s)" for msg sent
  proof -
    have "msg \<in> set (map fst (x_sent s))" using sent by force
    then obtain i where "i < length (map fst (x_sent s))" "map fst (x_sent s) ! i = msg" unfolding in_set_conv_nth by blast
    then have "items ! i \<in> set items" "encoded msg (items ! i)"
      using list_all2_nthD [OF items(2)] list_all2_lengthD [OF items(2)] by auto
    then show ?thesis using length_datagram [of msg "items ! i"] feed_tickers ok set_mono_prefix [OF items(1)] by fastforce
  qed
  ultimately show ?thesis using ok by (auto simp: list_all_iff)
qed

definition zero_kernel :: Kernel where
  "zero_kernel = sample_kernel\<lparr>k_reads := (\<lambda>fd. [Data (replicate 50 0)])\<rparr>"

definition sample_start :: "(InboundCommand list, WireMarketDataMessage list, Trade list) Exchange \<times> Sockets" where
  "sample_start = main_start checked_string sample_setup [[3], [5]] zero_kernel 9 (\<lambda>s. Some 0x010101EF)
     \<lparr>so_open = {}, so_options = []\<rparr> list_queues"

definition zero_order :: OrderAdd where
  "zero_order = \<lparr>a_orderId = 0, a_userId = 0, a_ticker = [], a_side = Buy, a_price = 0, a_volume = 0\<rparr>"

lemma sample_start_init: "fst sample_start = x_init list_queues [CmdAdd zero_order] None"
proof -
  have "Run checked_string sample_setup [[3], [5]] (new_Gateway GATEWAY_PORT) zero_kernel = (e, g, k, cmds) \<Longrightarrow>
      e = None \<and> cmds = [CmdAdd zero_order]" for e g k cmds
    using decode_zero_frame
    by (simp add: Run_def sample_setup_def zero_kernel_def sample_kernel_def new_Gateway_def AcceptConnections_def watch_fd_def
        ReadFrom_def new_Connection_def receive_def Dispatch_def wire_sizes CloseAllConnections_def Stop_def zero_order_def)
  then show ?thesis
    by (cases "Run checked_string sample_setup [[3], [5]] (new_Gateway GATEWAY_PORT) zero_kernel")
      (auto simp: sample_start_def main_start_def new_MarketDataPublisher_def Let_def)
qed

theorem exchange_well_typed_witness:
  "let s = perform sample_env [Do_gateway, Do_gateway, Do_matching sample_pad, Do_matching sample_pad, Do_publisher True, Do_publisher True]
       (fst sample_start)
   in length (x_sent s) = 1 \<and>
     list_all (\<lambda>(msg, sent). length (bytes_WireMarketDataMessage msg) = MARKET_DATA_MESSAGE_SIZE) (x_sent s)"
proof -
  define s where "s = perform sample_env [Do_gateway, Do_gateway, Do_matching sample_pad, Do_matching sample_pad,
       Do_publisher True, Do_publisher True] (fst sample_start)"
  have "length (x_sent s) = 1"
    by (cases "Router_OnOrderAdd zero_order onTrade new_Router []") (simp add: s_def sample_start_init exchange_eval)
  moreover have "x_steps sample_env (fst sample_start) s" unfolding s_def by (rule x_steps_perform)
  moreover have "main_start checked_string sample_setup [[3], [5]] zero_kernel 9 (\<lambda>s. Some 0x010101EF)
     \<lparr>so_open = {}, so_options = []\<rparr> (e_queues sample_env) = (fst sample_start, snd sample_start)"
    by (simp add: sample_start_def sample_env_def)
  ultimately show ?thesis
    using exchange_well_typed [OF checked.static_string_axioms sample_queues] unfolding Let_def s_def [symmetric] by blast
qed

end
